theory Spec2Isabelle
  imports Complex_Main "HOL-Library.AList"
begin

section \<open>Configuration store (store.service.ts)\<close>

subsection \<open>Pending-operation counter\<close>

text \<open>
  \<^verbatim>\<open>private loadingCount = signal(0);\<close>
  \<^verbatim>\<open>isLoading = computed(() => this.loadingCount() > 0);\<close>
  \<^verbatim>\<open>incrementLoading() { this.loadingCount.update(c => c + 1); }\<close>
  \<^verbatim>\<open>decrementLoading() { this.loadingCount.update(c => Math.max(0, c - 1)); }\<close>
  The counter only ever holds integers, so it is an \<open>int\<close> here.
\<close>

definition initialLoadingCount :: int where
  "initialLoadingCount = 0"

definition incrementLoading :: "int \<Rightarrow> int" where
  "incrementLoading c = c + 1"

definition decrementLoading :: "int \<Rightarrow> int" where
  "decrementLoading c = max 0 (c - 1)"

definition isLoading :: "int \<Rightarrow> bool" where
  "isLoading c = (c > 0)"

datatype loading_call = IncrementLoading | DecrementLoading

fun loadingCall :: "int \<Rightarrow> loading_call \<Rightarrow> int" where
  "loadingCall c IncrementLoading = incrementLoading c"
| "loadingCall c DecrementLoading = decrementLoading c"

text \<open>Any interleaving of calls, applied in the order in which they run.\<close>

definition loadingCalls :: "int \<Rightarrow> loading_call list \<Rightarrow> int" where
  "loadingCalls c calls = foldl loadingCall c calls"

subsection \<open>Configuration data (data.types.ts)\<close>

text \<open>
  JavaScript numbers are modelled as \<open>real\<close>, strings as \<open>string\<close>, an optional
  field (\<^verbatim>\<open>modelUrl?: string\<close>) and \<^verbatim>\<open>string | null\<close> as \<open>string option\<close>.
  Only the fields that the modelled functions read are kept; every other field of the
  interfaces is carried along untouched by the spread \<^verbatim>\<open>{ ...c, ... }\<close> and plays no role.
\<close>

type_synonym vec3 = "real \<times> real \<times> real"

record EnvironmentItem =
  env_id :: string
  env_url :: string
  env_scale :: real
  env_position :: vec3

record SceneObject =
  so_id :: string
  so_url :: string
  so_position :: vec3
  so_rotation :: vec3
  so_scale :: vec3

record CarConfig =
  car_id :: string
  car_color :: string
  car_underglowColor :: string
  car_roughness :: real
  car_metalness :: real
  car_modelUrl :: "string option"
  car_driveSoundUrl :: "string option"
  car_ignitionSoundUrl :: "string option"

record AppConfig =
  activeCarIndex :: int
  fleet :: "CarConfig list"
  environments :: "EnvironmentItem list"
  activeEnvironmentId :: "string option"
  sceneObjects :: "SceneObject list"

text \<open>An optional string is truthy when it is present and not empty.\<close>

definition truthy :: "string option \<Rightarrow> bool" where
  "truthy u = (case u of None \<Rightarrow> False | Some x \<Rightarrow> x \<noteq> [])"

subsection \<open>Computed helpers\<close>

text \<open>
  \<^verbatim>\<open>xs[i]\<close> on a JavaScript array: the element when \<open>i\<close> is an index of the array,
  \<^verbatim>\<open>undefined\<close> (\<open>None\<close>) otherwise.
\<close>

definition jsIndex :: "'a list \<Rightarrow> int \<Rightarrow> 'a option" where
  "jsIndex xs i = (if 0 \<le> i \<and> i < int (length xs) then Some (xs ! nat i) else None)"

text \<open>
  \<^verbatim>\<open>activeCar = computed(() => this.config().fleet[this.activeCarIndex()] || this.config().fleet[0]);\<close>
  A car object is truthy, so \<^verbatim>\<open>||\<close> takes its right operand exactly when the left
  one is \<^verbatim>\<open>undefined\<close>.
\<close>

definition activeCar :: "AppConfig \<Rightarrow> CarConfig option" where
  "activeCar c =
     (case jsIndex (fleet c) (activeCarIndex c) of
        Some car \<Rightarrow> Some car
      | None \<Rightarrow> jsIndex (fleet c) 0)"

datatype js_error = TypeError

text \<open>
  The per-frame loop reads the id of the active car on every tick:
  \<^verbatim>\<open>const activeCarConfig = this.store.activeCar();\<close>
  \<^verbatim>\<open>const activeGroup = this.carMap.get(activeCarConfig.id);\<close>
  Reading a property of \<^verbatim>\<open>undefined\<close> throws a TypeError.
\<close>

definition activeCarId :: "AppConfig \<Rightarrow> js_error + string" where
  "activeCarId c = (case activeCar c of None \<Rightarrow> Inl TypeError | Some car \<Rightarrow> Inr (car_id car))"

subsection \<open>Actions\<close>

text \<open>
  \<^verbatim>\<open>updateConfig(newConfig: Partial<AppConfig>) { this.config.update(current => ({ ...current, ...newConfig })); }\<close>
  A partial configuration gives some of the fields; the others keep their value.
\<close>

record PartialAppConfig =
  p_activeCarIndex :: "int option"
  p_fleet :: "CarConfig list option"
  p_environments :: "EnvironmentItem list option"
  p_activeEnvironmentId :: "string option option"
  p_sceneObjects :: "SceneObject list option"

definition noUpdate :: PartialAppConfig where
  "noUpdate = \<lparr>p_activeCarIndex = None, p_fleet = None, p_environments = None,
     p_activeEnvironmentId = None, p_sceneObjects = None\<rparr>"

definition updateConfig :: "PartialAppConfig \<Rightarrow> AppConfig \<Rightarrow> AppConfig" where
  "updateConfig newConfig current =
     \<lparr>activeCarIndex = (case p_activeCarIndex newConfig of Some v \<Rightarrow> v | None \<Rightarrow> activeCarIndex current),
      fleet = (case p_fleet newConfig of Some v \<Rightarrow> v | None \<Rightarrow> fleet current),
      environments = (case p_environments newConfig of Some v \<Rightarrow> v | None \<Rightarrow> environments current),
      activeEnvironmentId =
        (case p_activeEnvironmentId newConfig of Some v \<Rightarrow> v | None \<Rightarrow> activeEnvironmentId current),
      sceneObjects = (case p_sceneObjects newConfig of Some v \<Rightarrow> v | None \<Rightarrow> sceneObjects current)\<rparr>"

text \<open>
  The store itself replaces the fleet only by a non-empty list, in \<open>pollServerUpdates\<close>
  (and in the same way in \<open>initializeData\<close>):
  \<^verbatim>\<open>if (serverCars && serverCars.length > 0) { this.config.update(current => ({ ...current, fleet: serverCars })); }\<close>
\<close>

definition pollServerCars :: "CarConfig list \<Rightarrow> AppConfig \<Rightarrow> AppConfig" where
  "pollServerCars serverCars current =
     (if length serverCars > 0 then current\<lparr>fleet := serverCars\<rparr> else current)"

text \<open>
  \<^verbatim>\<open>newEnvs[0]?.id || null\<close>: \<^verbatim>\<open>undefined\<close> for an empty list and the empty string
  are both falsy, so both give \<^verbatim>\<open>null\<close>.
\<close>

definition firstIdOrNull :: "EnvironmentItem list \<Rightarrow> string option" where
  "firstIdOrNull newEnvs =
     (case newEnvs of
        [] \<Rightarrow> None
      | e # _ \<Rightarrow> (if env_id e = [] then None else Some (env_id e)))"

text \<open>
  \<^verbatim>\<open>
  removeEnvironment(id: string) {
      this.config.update(c => {
          const newEnvs = c.environments.filter(e => e.id !== id);
          return { ...c, environments: newEnvs,
              activeEnvironmentId: c.activeEnvironmentId === id ? (newEnvs[0]?.id || null) : c.activeEnvironmentId };
      });
  }
  \<close>
\<close>

definition removeEnvironment :: "string \<Rightarrow> AppConfig \<Rightarrow> AppConfig" where
  "removeEnvironment i c =
     (let newEnvs = filter (\<lambda>e. env_id e \<noteq> i) (environments c)
      in c\<lparr>environments := newEnvs,
           activeEnvironmentId :=
             (if activeEnvironmentId c = Some i then firstIdOrNull newEnvs
              else activeEnvironmentId c)\<rparr>)"

section \<open>Scene service (three-scene.service.ts): simulation state\<close>

text \<open>
  Scene-graph objects live in a heap indexed by handles: a handle is the identity of one
  \<^verbatim>\<open>THREE.Object3D\<close>, so two references alias exactly when their handles are equal.
  JavaScript numbers are idealised as real numbers throughout (no rounding).
\<close>

type_synonym handle = nat

datatype child = GltfScene string | Procedural string

record Object3D =
  obj_name :: string
  obj_position :: vec3
  obj_rotation :: vec3
  obj_scale :: vec3
  obj_visible :: bool
  obj_url :: "string option"
  obj_isFront :: bool
  obj_children :: "child list"

text \<open>
  \<open>obj_url\<close> is \<^verbatim>\<open>userData['url']\<close> (scene objects) or \<^verbatim>\<open>userData['modelUrl']\<close>
  (cars), \<open>obj_isFront\<close> is \<^verbatim>\<open>userData['isFront']\<close>. \<open>obj_children\<close> lists the content
  attached below a group: a loaded model (by the URL it was loaded from) or a mesh built
  in code (by its name).
\<close>

definition newGroup :: Object3D where
  "newGroup = \<lparr>obj_name = [], obj_position = (0, 0, 0), obj_rotation = (0, 0, 0),
     obj_scale = (1, 1, 1), obj_visible = True, obj_url = None, obj_isFront = False,
     obj_children = []\<rparr>"

record CarParams =
  wheels :: "handle list"
  bodyParts :: "handle list"
  hoodParts :: "handle list"
  chassisParts :: "handle list"
  originalPositions :: "handle \<rightharpoonup> vec3"
  originalRotations :: "handle \<rightharpoonup> vec3"

text \<open>
  A sound is a \<^verbatim>\<open>THREE.PositionalAudio\<close> of the three.js library. \<open>au_buffer\<close> says
  whether a buffer has been set. \<open>au_onEnded\<close> is the sound's \<^verbatim>\<open>onEnded\<close> property: the
  library's own method until the service assigns a closure of its own.
  \<open>au_sourceOnEnded\<close> is the handler that the running source node will call when its
  clip ends: the library's \<^verbatim>\<open>play()\<close> creates the node and binds to it the \<^verbatim>\<open>onEnded\<close>
  of that moment (\<^verbatim>\<open>source.onended = this.onEnded.bind(this)\<close>), \<^verbatim>\<open>stop()\<close> clears it
  (\<^verbatim>\<open>this.source.onended = null\<close>), and a node ends at most once.
  A pending request of the audio loader is the closure that will run on success:
  the drive-sound callback has captured \<^verbatim>\<open>car\<close> and \<^verbatim>\<open>wasRunning\<close>.
\<close>

datatype on_ended = DefaultOnEnded | StartEngineLoop

record Audio =
  au_buffer :: bool
  au_isPlaying :: bool
  au_playbackRate :: real
  au_onEnded :: on_ended
  au_sourceOnEnded :: "on_ended option"

datatype audio_request = DriveSoundLoad CarConfig bool | IgnitionSoundLoad CarConfig

text \<open>
  \<open>soundsParent\<close> is the parent of the two sounds, \<open>simLoadingCount\<close> the store's
  \<open>loadingCount\<close> as the audio functions change it.
\<close>

record Sim =
  speed :: real
  steering :: real
  carAngle :: real
  explodeFactor :: real
  currentCarParams :: CarParams
  objects :: "handle \<Rightarrow> Object3D"
  simCarMap :: "(string \<times> handle) list"
  isEngineRunning :: bool
  engineSound :: Audio
  ignitionSound :: Audio
  currentEngineSoundId :: "string option"
  pendingAudioLoads :: "audio_request list"
  soundsParent :: "handle option"
  simLoadingCount :: int

text \<open>What one tick samples from the clock, the store's signals and the key map.\<close>

record Frame =
  f_delta :: real
  f_elapsed :: real
  f_section :: string
  f_isMenuOpen :: bool
  f_joystick :: "real \<times> real"
  f_keys :: "string \<Rightarrow> bool"

text \<open>
  \<^verbatim>\<open>THREE.MathUtils.lerp(x, y, t)\<close> of the three.js library is the linear interpolation
  \<^verbatim>\<open>(1 - t) * x + t * y\<close>.
\<close>

definition lerp :: "real \<Rightarrow> real \<Rightarrow> real \<Rightarrow> real" where
  "lerp x y t = (1 - t) * x + t * y"

definition mapBounds :: real where
  "mapBounds = 190"

definition forEachObject :: "(handle \<Rightarrow> Object3D \<Rightarrow> Object3D) \<Rightarrow> handle list
    \<Rightarrow> (handle \<Rightarrow> Object3D) \<Rightarrow> (handle \<Rightarrow> Object3D)" where
  "forEachObject upd hs heap = fold (\<lambda>h hp. hp(h := upd h (hp h))) hs heap"

subsection \<open>Fleet line-up (every section but drive and walk)\<close>

text \<open>
  \<^verbatim>\<open>
  fleet.forEach((car, index) => {
      const group = this.carMap.get(car.id);
      if (!group) return;
      group.visible = true;
      const offsetIndex = index - activeIndex;
      const targetX = offsetIndex * spacing;                       // spacing = 12
      const targetY = (offsetIndex === 0) ? 0.25 : 0;
      const targetRotY = (offsetIndex === 0) ? (this.clock.getElapsedTime() * 0.1) : 0;
      group.position.x = THREE.MathUtils.lerp(group.position.x, targetX, delta * 4);
      group.position.z = THREE.MathUtils.lerp(group.position.z, 0, delta * 4);
      group.position.y = THREE.MathUtils.lerp(group.position.y, targetY, delta * 4);
      if (offsetIndex === 0) group.rotation.y = targetRotY;
      else group.rotation.y = THREE.MathUtils.lerp(group.rotation.y, targetRotY, delta * 4);
      group.rotation.x = 0;
      group.rotation.z = 0;
  });
  \<close>
\<close>

definition lineupGroup :: "Frame \<Rightarrow> int \<Rightarrow> Object3D \<Rightarrow> Object3D" where
  "lineupGroup f offsetIndex grp =
     (case (obj_position grp, obj_rotation grp) of
        ((px, py, pz), (rx, ry, rz)) \<Rightarrow>
          grp\<lparr>obj_visible := True,
                obj_position :=
                  (lerp px (real_of_int offsetIndex * 12) (f_delta f * 4),
                   lerp py (if offsetIndex = 0 then 1 / 4 else 0) (f_delta f * 4),
                   lerp pz 0 (f_delta f * 4)),
                obj_rotation :=
                  (0,
                   (if offsetIndex = 0 then f_elapsed f * (1 / 10) else lerp ry 0 (f_delta f * 4)),
                   0)\<rparr>)"

fun lineup :: "Frame \<Rightarrow> int \<Rightarrow> (string \<times> handle) list \<Rightarrow> CarConfig list \<Rightarrow> int
    \<Rightarrow> (handle \<Rightarrow> Object3D) \<Rightarrow> (handle \<Rightarrow> Object3D)" where
  "lineup f activeIndex cm [] index heap = heap"
| "lineup f activeIndex cm (car # cars) index heap =
     lineup f activeIndex cm cars (index + 1)
       (case map_of cm (car_id car) of
          None \<Rightarrow> heap
        | Some grp \<Rightarrow> heap(grp := lineupGroup f (index - activeIndex) (heap grp)))"

subsection \<open>Exploded view (every section but drive and walk, active group present)\<close>

text \<open>
  \<^verbatim>\<open>
  const isTechMode = section.id === 'engineering';
  const targetExplode = isTechMode ? 1 : 0;
  this.explodeFactor = THREE.MathUtils.lerp(this.explodeFactor, targetExplode, delta * 3);
  if (this.explodeFactor > 0.01) {
      const val = this.explodeFactor;
      bodyParts.forEach(obj => { const orig = originalPositions.get(obj);
          if (orig) obj.position.copy(orig).add(new THREE.Vector3(0, 1.5 * val, 0)); });
      hoodParts.forEach(obj => { const orig = originalPositions.get(obj);
          const origRot = originalRotations.get(obj);
          if (orig && origRot) { obj.position.copy(orig).add(new THREE.Vector3(0, 1.2 * val, 0.5 * val));
                                 obj.rotation.x = origRot.x - (0.5 * val); } });
      wheels.forEach(obj => { const orig = originalPositions.get(obj);
          if (orig) { const sign = orig.x > 0 ? 1 : -1;
                      obj.position.copy(orig).add(new THREE.Vector3(sign * 0.8 * val, 0, 0)); } });
      chassisParts.forEach(obj => { const orig = originalPositions.get(obj);
          if (orig) obj.position.copy(orig); });
  } else if (this.explodeFactor <= 0.01 && !isTechMode) {
      originalPositions.forEach((pos, obj) => { obj.position.copy(pos); });
      originalRotations.forEach((rot, obj) => { obj.rotation.copy(rot); });
  }
  \<close>
  The two maps are keyed by object identity, so their \<^verbatim>\<open>forEach\<close> writes each tracked
  object once: it is the pointwise update of the heap.
\<close>

definition explodeBody :: "CarParams \<Rightarrow> real \<Rightarrow> handle \<Rightarrow> Object3D \<Rightarrow> Object3D" where
  "explodeBody cp val h obj =
     (case originalPositions cp h of
        None \<Rightarrow> obj
      | Some (ox, oy, oz) \<Rightarrow> obj\<lparr>obj_position := (ox, oy + (3 / 2) * val, oz)\<rparr>)"

definition explodeHood :: "CarParams \<Rightarrow> real \<Rightarrow> handle \<Rightarrow> Object3D \<Rightarrow> Object3D" where
  "explodeHood cp val h obj =
     (case (originalPositions cp h, originalRotations cp h) of
        (Some (ox, oy, oz), Some (rx, ry, rz)) \<Rightarrow>
          (case obj_rotation obj of
             (cx, cy, cz) \<Rightarrow>
               obj\<lparr>obj_position := (ox, oy + (6 / 5) * val, oz + (1 / 2) * val),
                    obj_rotation := (rx - (1 / 2) * val, cy, cz)\<rparr>)
      | _ \<Rightarrow> obj)"

definition explodeWheel :: "CarParams \<Rightarrow> real \<Rightarrow> handle \<Rightarrow> Object3D \<Rightarrow> Object3D" where
  "explodeWheel cp val h obj =
     (case originalPositions cp h of
        None \<Rightarrow> obj
      | Some (ox, oy, oz) \<Rightarrow>
          obj\<lparr>obj_position := (ox + (if ox > 0 then 1 else - 1) * (4 / 5) * val, oy, oz)\<rparr>)"

definition explodeChassis :: "CarParams \<Rightarrow> handle \<Rightarrow> Object3D \<Rightarrow> Object3D" where
  "explodeChassis cp h obj =
     (case originalPositions cp h of
        None \<Rightarrow> obj
      | Some orig \<Rightarrow> obj\<lparr>obj_position := orig\<rparr>)"

definition snapToOriginal :: "CarParams \<Rightarrow> (handle \<Rightarrow> Object3D) \<Rightarrow> (handle \<Rightarrow> Object3D)" where
  "snapToOriginal cp heap =
     (\<lambda>h. let o1 = (case originalPositions cp h of
                       None \<Rightarrow> heap h
                     | Some pos \<Rightarrow> (heap h)\<lparr>obj_position := pos\<rparr>)
           in (case originalRotations cp h of
                 None \<Rightarrow> o1
               | Some rot \<Rightarrow> o1\<lparr>obj_rotation := rot\<rparr>))"

definition explode :: "Frame \<Rightarrow> Sim \<Rightarrow> Sim" where
  "explode f s =
     (let isTechMode = (f_section f = ''engineering'');
          targetExplode = (if isTechMode then 1 else 0);
          val = lerp (explodeFactor s) targetExplode (f_delta f * 3);
          cp = currentCarParams s
      in if val > 1 / 100 then
           s\<lparr>explodeFactor := val,
              objects :=
                forEachObject (explodeChassis cp) (chassisParts cp)
                  (forEachObject (explodeWheel cp val) (wheels cp)
                    (forEachObject (explodeHood cp val) (hoodParts cp)
                      (forEachObject (explodeBody cp val) (bodyParts cp) (objects s))))\<rparr>
         else if val \<le> 1 / 100 \<and> \<not> isTechMode then
           s\<lparr>explodeFactor := val, objects := snapToOriginal cp (objects s)\<rparr>
         else s\<lparr>explodeFactor := val\<rparr>)"

text \<open>
  \<^verbatim>\<open>
  if (section.id !== 'drive' && section.id !== 'walk') {
      ... fleet line-up ...
      if (activeGroup) { ... exploded view ... }
      if (this.controls) this.controls.update();
  }
  \<close>
\<close>

definition showroomPhase :: "AppConfig \<Rightarrow> Frame \<Rightarrow> handle option \<Rightarrow> Sim \<Rightarrow> Sim" where
  "showroomPhase c f activeGroup s =
     (if f_section f \<noteq> ''drive'' \<and> f_section f \<noteq> ''walk'' then
        (let s1 = s\<lparr>objects := lineup f (activeCarIndex c) (simCarMap s) (fleet c) 0 (objects s)\<rparr>
         in case activeGroup of None \<Rightarrow> s1 | Some g \<Rightarrow> explode f s1)
      else s)"

subsection \<open>Driving (section drive, active group present)\<close>

text \<open>
  \<^verbatim>\<open>
  const isUp = this.keys['w'] || this.keys['arrowup'];
  const isDown = this.keys['s'] || this.keys['arrowdown'];
  const isLeft = this.keys['a'] || this.keys['arrowleft'];
  const isRight = this.keys['d'] || this.keys['arrowright'];
  const isBrake = this.keys[' '];
  let throttle = (isUp ? 1 : isDown ? -1 : 0) + joystick.y;
  throttle = Math.max(-1, Math.min(1, throttle));
  \<close>
\<close>

definition isUp :: "Frame \<Rightarrow> bool" where
  "isUp f = (f_keys f ''w'' \<or> f_keys f ''arrowup'')"

definition isDown :: "Frame \<Rightarrow> bool" where
  "isDown f = (f_keys f ''s'' \<or> f_keys f ''arrowdown'')"

definition isLeft :: "Frame \<Rightarrow> bool" where
  "isLeft f = (f_keys f ''a'' \<or> f_keys f ''arrowleft'')"

definition isRight :: "Frame \<Rightarrow> bool" where
  "isRight f = (f_keys f ''d'' \<or> f_keys f ''arrowright'')"

definition isBrake :: "Frame \<Rightarrow> bool" where
  "isBrake f = f_keys f '' ''"

definition throttle :: "Frame \<Rightarrow> real" where
  "throttle f =
     max (- 1) (min 1 ((if isUp f then 1 else if isDown f then - 1 else 0) + snd (f_joystick f)))"

text \<open>
  \<^verbatim>\<open>
  if (isBrake) { this.speed = THREE.MathUtils.lerp(this.speed, 0, delta * 2); }
  else { this.speed += throttle * 30 * delta;
         this.speed = Math.max(-20, Math.min(80, this.speed));
         this.speed *= 0.98; }
  \<close>
\<close>

definition driveSpeed :: "Frame \<Rightarrow> real \<Rightarrow> real" where
  "driveSpeed f v =
     (if isBrake f then lerp v 0 (f_delta f * 2)
      else max (- 20) (min 80 (v + throttle f * 30 * f_delta f)) * (98 / 100))"

text \<open>
  \<^verbatim>\<open>
  let steerInput = (isLeft ? 0.6 : isRight ? -0.6 : 0) + (joystick.x * -0.6);
  steerInput = Math.max(-0.6, Math.min(0.6, steerInput));
  this.steering = THREE.MathUtils.lerp(this.steering, steerInput, delta * 5);
  \<close>
\<close>

definition steerInput :: "Frame \<Rightarrow> real" where
  "steerInput f =
     max (- (6 / 10)) (min (6 / 10)
       ((if isLeft f then 6 / 10 else if isRight f then - (6 / 10) else 0)
        + fst (f_joystick f) * (- (6 / 10))))"

text \<open>
  \<^verbatim>\<open>
  if (Math.abs(this.speed) > 0.1) { this.carAngle += this.speed * this.steering * 0.05 * delta; }
  let nextX = activeGroup.position.x + Math.sin(this.carAngle) * this.speed * delta;
  let nextZ = activeGroup.position.z + Math.cos(this.carAngle) * this.speed * delta;
  if (Math.abs(nextX) > this.mapBounds || Math.abs(nextZ) > this.mapBounds) this.speed *= -0.5;
  else { activeGroup.position.x = nextX; activeGroup.position.z = nextZ; }
  activeGroup.position.y = 0;
  activeGroup.rotation.y = this.carAngle;
  ... chase camera ...
  const rotSpeed = this.speed * delta * 2.0;
  this.currentCarParams.wheels.forEach((w) => {
      w.rotation.x += rotSpeed;
      if (w.userData['isFront']) { w.rotation.y = this.steering; } else { w.rotation.y = 0; }
  });
  \<close>
  Before that, every group of \<open>carMap\<close> other than the active one is hidden and the
  active one is shown.
\<close>

definition spinWheel :: "real \<Rightarrow> real \<Rightarrow> handle \<Rightarrow> Object3D \<Rightarrow> Object3D" where
  "spinWheel rotSpeed st h w =
     (case obj_rotation w of
        (rx, ry, rz) \<Rightarrow>
          w\<lparr>obj_rotation := (rx + rotSpeed, (if obj_isFront w then st else 0), rz)\<rparr>)"

definition showOnly :: "handle \<Rightarrow> handle \<Rightarrow> Object3D \<Rightarrow> Object3D" where
  "showOnly activeGroup h g = g\<lparr>obj_visible := (h = activeGroup)\<rparr>"

definition drive :: "Frame \<Rightarrow> handle \<Rightarrow> Sim \<Rightarrow> Sim" where
  "drive f activeGroup s =
     (let heap0 = (forEachObject (showOnly activeGroup) (map snd (simCarMap s)) (objects s));
          heap1 = heap0(activeGroup := (heap0 activeGroup)\<lparr>obj_visible := True\<rparr>);
          v = driveSpeed f (speed s);
          st = lerp (steering s) (steerInput f) (f_delta f * 5);
          ang = (if \<bar>v\<bar> > 1 / 10 then carAngle s + v * st * (5 / 100) * f_delta f else carAngle s);
          g = heap1 activeGroup
      in case (obj_position g, obj_rotation g) of
           ((px, py, pz), (rx, ry, rz)) \<Rightarrow>
             (let nextX = px + sin ang * v * f_delta f;
                  nextZ = pz + cos ang * v * f_delta f;
                  bounce = (\<bar>nextX\<bar> > mapBounds \<or> \<bar>nextZ\<bar> > mapBounds);
                  v' = (if bounce then v * (- (1 / 2)) else v);
                  g' = g\<lparr>obj_position := (if bounce then (px, 0, pz) else (nextX, 0, nextZ)),
                         obj_rotation := (rx, ang, rz)\<rparr>;
                  heap2 = heap1(activeGroup := g')
              in s\<lparr>speed := v', steering := st, carAngle := ang,
                    objects :=
                      forEachObject (spinWheel (v' * f_delta f * 2) st)
                        (wheels (currentCarParams s)) heap2\<rparr>))"

definition drivePhase :: "Frame \<Rightarrow> handle option \<Rightarrow> Sim \<Rightarrow> Sim" where
  "drivePhase f activeGroup s =
     (case activeGroup of
        Some g \<Rightarrow> (if f_section f = ''drive'' then drive f g s else s)
      | None \<Rightarrow> s)"

subsection \<open>The per-frame loop\<close>

text \<open>
  \<^verbatim>\<open>
  if (this.isEngineRunning && this.engineSound && this.engineSound.isPlaying) {
      const normalizedSpeed = Math.abs(this.speed) / 80;
      const targetRate = 0.8 + (normalizedSpeed * 0.8);
      this.engineSound.setPlaybackRate(targetRate);
  }
  \<close>
\<close>

definition enginePitch :: "Sim \<Rightarrow> Sim" where
  "enginePitch s =
     (if isEngineRunning s \<and> au_isPlaying (engineSound s)
      then s\<lparr>engineSound := (engineSound s)\<lparr>au_playbackRate := 8 / 10 + (\<bar>speed s\<bar> / 80) * (8 / 10)\<rparr>\<rparr>
      else s)"

text \<open>
  \<open>animate\<close>: the active car is read first (\<^verbatim>\<open>this.carMap.get(activeCarConfig.id)\<close>,
  which throws when the active car is \<^verbatim>\<open>undefined\<close>); with the menu open only the
  camera moves; otherwise the engine pitch, the showroom phase, the drive phase and the
  walk phase run in this order. The walk phase, the camera and the renderer write none
  of the fields of \<open>Sim\<close> (character and camera state are not part of it), except that
  the walk phase shows the active group.
\<close>

definition walkPhase :: "Frame \<Rightarrow> handle option \<Rightarrow> Sim \<Rightarrow> Sim" where
  "walkPhase f activeGroup s =
     (case activeGroup of
        Some g \<Rightarrow>
          (if f_section f = ''walk''
           then s\<lparr>objects := (objects s)(g := (objects s g)\<lparr>obj_visible := True\<rparr>)\<rparr> else s)
      | None \<Rightarrow> s)"

definition animate :: "AppConfig \<Rightarrow> Frame \<Rightarrow> Sim \<Rightarrow> js_error + Sim" where
  "animate c f s =
     (case activeCar c of
        None \<Rightarrow> Inl TypeError
      | Some activeCarConfig \<Rightarrow>
          (let activeGroup = map_of (simCarMap s) (car_id activeCarConfig)
           in if f_isMenuOpen f then Inr s
              else Inr (walkPhase f activeGroup
                         (drivePhase f activeGroup
                           (showroomPhase c f activeGroup (enginePitch s))))))"

text \<open>
  A tick that throws has changed nothing, and the next frame was requested before
  (\<^verbatim>\<open>requestAnimationFrame\<close> is the first statement), so the loop goes on.
\<close>

definition tick :: "AppConfig \<Rightarrow> Sim \<Rightarrow> Frame \<Rightarrow> Sim" where
  "tick c s f = (case animate c f s of Inl e \<Rightarrow> s | Inr s' \<Rightarrow> s')"

definition ticks :: "AppConfig \<Rightarrow> Sim \<Rightarrow> Frame list \<Rightarrow> Sim" where
  "ticks c s fs = foldl (tick c) s fs"

section \<open>Scene service: ignition and engine sound\<close>




















section \<open>Scene service: entity synchronisation\<close>

text \<open>
  The fields of the service that the synchronisation functions write. A JavaScript
  \<^verbatim>\<open>Map\<close> keeps its keys in insertion order, so the three live maps are association
  lists with \<open>map_of\<close> for \<^verbatim>\<open>get\<close>/\<^verbatim>\<open>has\<close>, \<open>AList.update\<close> for \<^verbatim>\<open>set\<close> and
  \<open>AList.delete\<close> for \<^verbatim>\<open>delete\<close>. A parent group is the list of its children's
  handles. \<^verbatim>\<open>new THREE.Group()\<close> takes the next unused handle. A model load that has
  been handed to the loader stays in \<open>pendingLoads\<close> until its callback runs.
  \<open>analyzeCarStructure(group)\<close> recomputes \<open>currentCarParams\<close> from the subtree of
  \<open>group\<close>; here only the group it was last run on is recorded (\<open>analyzedGroup\<close>).
  The fields of the one service are split between \<open>Sim\<close> and this record by the
  functions that write them: the per-frame loop, the ignition and the audio functions
  with their load callbacks write \<open>Sim\<close>, the synchronisation functions and the model
  load callbacks write \<open>Scene\<close>. The parent of the two sounds and the store's
  \<open>loadingCount\<close> are written from both sides, so each record has its own copy
  (\<open>soundsParent\<close> and \<open>simLoadingCount\<close> there, \<open>soundParent\<close> and \<open>loadingCount\<close>
  here).
\<close>

record CarMaterials =
  paint_color :: string
  paint_metalness :: real
  paint_roughness :: real

datatype load_request =
    EnvLoad EnvironmentItem handle
  | SceneObjectLoad SceneObject handle
  | CarLoad CarConfig handle

record Scene =
  nodes :: "handle \<Rightarrow> Object3D"
  nextHandle :: handle
  envObjectMap :: "(string \<times> handle) list"
  wallModelGroup :: "handle list"
  sceneObjectMap :: "(string \<times> handle) list"
  sceneObjectsGroup :: "handle list"
  carMap :: "(string \<times> handle) list"
  fleetGroup :: "handle list"
  materialsMap :: "(string \<times> CarMaterials) list"
  pendingLoads :: "load_request list"
  loadingCount :: int
  analyzedGroup :: "handle option"
  underglowParent :: "handle option"
  underglowColor :: string
  soundsReady :: bool
  soundParent :: "handle option"

text \<open>The state in which \<open>init\<close> runs the first synchronisation.\<close>

definition initialScene :: Scene where
  "initialScene = \<lparr>nodes = (\<lambda>h. newGroup), nextHandle = 0, envObjectMap = [],
     wallModelGroup = [], sceneObjectMap = [], sceneObjectsGroup = [], carMap = [],
     fleetGroup = [], materialsMap = [], pendingLoads = [], loadingCount = 0,
     analyzedGroup = None, underglowParent = None, underglowColor = ''#ffffff'',
     soundsReady = False, soundParent = None\<rparr>"

text \<open>The outcome of a function that may throw: the state it reached, and the exception.\<close>

type_synonym 'a outcome = "'a \<times> js_error option"

subsection \<open>Environments\<close>

text \<open>
  \<^verbatim>\<open>
  private applyEnvironmentTransform(env: EnvironmentItem, obj: THREE.Object3D) {
      obj.scale.set(env.scale, env.scale, env.scale);
      obj.position.set(env.position[0], env.position[1], env.position[2]);
  }
  \<close>
\<close>

definition applyEnvironmentTransform :: "EnvironmentItem \<Rightarrow> Object3D \<Rightarrow> Object3D" where
  "applyEnvironmentTransform env obj =
     obj\<lparr>obj_scale := (env_scale env, env_scale env, env_scale env),
         obj_position := env_position env\<rparr>"

text \<open>
  \<^verbatim>\<open>
  private loadEnvironmentModel(env: EnvironmentItem) {
      if (!env.url) return;
      const anchor = new THREE.Group();
      anchor.name = env.id;
      this.applyEnvironmentTransform(env, anchor);
      this.envObjectMap.set(env.id, anchor);
      this.wallModelGroup.add(anchor);
      this.store.incrementLoading();
      this.gltfLoader.load(env.url, (gltf) => { ... }, undefined, (err) => { ... });
  }
  \<close>
\<close>

definition loadEnvironmentModel :: "EnvironmentItem \<Rightarrow> Scene \<Rightarrow> Scene" where
  "loadEnvironmentModel env s =
     (if env_url env = [] then s
      else
        (let anchor = nextHandle s
         in s\<lparr>nodes := (nodes s)(anchor := applyEnvironmentTransform env (newGroup\<lparr>obj_name := env_id env\<rparr>)),
              nextHandle := Suc anchor,
              envObjectMap := AList.update (env_id env) anchor (envObjectMap s),
              wallModelGroup := wallModelGroup s @ [anchor],
              loadingCount := incrementLoading (loadingCount s),
              pendingLoads := pendingLoads s @ [EnvLoad env anchor]\<rparr>))"

text \<open>
  \<^verbatim>\<open>
  private syncEnvironments(envs: EnvironmentItem[]) {
      const currentIds = new Set(this.envObjectMap.keys());
      const newIds = new Set(envs.map(e => e.id));
      for (const id of currentIds) {
          if (!newIds.has(id)) {
              const obj = this.envObjectMap.get(id);
              if (obj) { this.wallModelGroup.remove(obj); }
              this.envObjectMap.delete(id);
          }
      }
      for (const env of envs) {
          if (this.envObjectMap.has(env.id)) {
              const anchor = this.envObjectMap.get(env.id)!;
              this.applyEnvironmentTransform(env, anchor);
          } else {
              this.loadEnvironmentModel(env);
          }
      }
  }
  \<close>
\<close>

definition removeEnvironmentObject :: "string list \<Rightarrow> Scene \<Rightarrow> string \<Rightarrow> Scene" where
  "removeEnvironmentObject newIds s i =
     (if i \<in> set newIds then s
      else s\<lparr>wallModelGroup :=
                (case map_of (envObjectMap s) i of
                   Some obj \<Rightarrow> remove1 obj (wallModelGroup s)
                 | None \<Rightarrow> wallModelGroup s),
              envObjectMap := AList.delete i (envObjectMap s)\<rparr>)"

definition syncEnvironment :: "Scene \<Rightarrow> EnvironmentItem \<Rightarrow> Scene" where
  "syncEnvironment s env =
     (case map_of (envObjectMap s) (env_id env) of
        Some anchor \<Rightarrow> s\<lparr>nodes := (nodes s)(anchor := applyEnvironmentTransform env (nodes s anchor))\<rparr>
      | None \<Rightarrow> loadEnvironmentModel env s)"

definition syncEnvironments :: "EnvironmentItem list \<Rightarrow> Scene \<Rightarrow> Scene" where
  "syncEnvironments envs s =
     foldl syncEnvironment
       (foldl (removeEnvironmentObject (map env_id envs)) s (map fst (envObjectMap s)))
       envs"

subsection \<open>Scene objects\<close>

text \<open>
  \<^verbatim>\<open>
  private applySceneObjectTransform(data: SceneObject, group: THREE.Object3D) {
      group.position.set(data.position[0], data.position[1], data.position[2]);
      group.rotation.set(data.rotation[0], data.rotation[1], data.rotation[2]);
      group.scale.set(data.scale[0], data.scale[1], data.scale[2]);
  }
  \<close>
\<close>

definition applySceneObjectTransform :: "SceneObject \<Rightarrow> Object3D \<Rightarrow> Object3D" where
  "applySceneObjectTransform objData obj =
     obj\<lparr>obj_position := so_position objData, obj_rotation := so_rotation objData,
         obj_scale := so_scale objData\<rparr>"

text \<open>
  \<^verbatim>\<open>
  private loadSceneObject(objData: SceneObject) {
      const group = new THREE.Group();
      group.name = objData.id;
      group.userData['url'] = objData.url;
      this.applySceneObjectTransform(objData, group);
      this.sceneObjectsGroup.add(group);
      this.sceneObjectMap.set(objData.id, group);
      this.store.incrementLoading();
      this.gltfLoader.load(objData.url, (gltf) => { ... }, undefined, (err) => { ... });
  }
  \<close>
\<close>

definition loadSceneObject :: "SceneObject \<Rightarrow> Scene \<Rightarrow> Scene" where
  "loadSceneObject objData s =
     (let grp = nextHandle s
      in s\<lparr>nodes := (nodes s)(grp := applySceneObjectTransform objData
                       (newGroup\<lparr>obj_name := so_id objData, obj_url := Some (so_url objData)\<rparr>)),
           nextHandle := Suc grp,
           sceneObjectsGroup := sceneObjectsGroup s @ [grp],
           sceneObjectMap := AList.update (so_id objData) grp (sceneObjectMap s),
           loadingCount := incrementLoading (loadingCount s),
           pendingLoads := pendingLoads s @ [SceneObjectLoad objData grp]\<rparr>)"

text \<open>
  \<^verbatim>\<open>
  private syncSceneObjects(objects: SceneObject[]) {
      const currentIds = new Set(this.sceneObjectMap.keys());
      const newIds = new Set(objects.map(o => o.id));
      for (const id of currentIds) {
          if (!newIds.has(id)) {
              const obj = this.sceneObjectMap.get(id);
              if (obj) { this.sceneObjectsGroup.remove(obj); }
              this.sceneObjectMap.delete(id);
          }
      }
      for (const objData of objects) {
          if (this.sceneObjectMap.has(objData.id)) {
              const group = this.sceneObjectMap.get(objData.id)!;
              if (group.userData['url'] !== objData.url) {
                  this.sceneObjectsGroup.remove(group);
                  this.sceneObjectMap.delete(objData.id);
                  this.loadSceneObject(objData);
              } else {
                  this.applySceneObjectTransform(objData, group);
              }
          } else {
              this.loadSceneObject(objData);
          }
      }
  }
  \<close>
\<close>

definition removeSceneObjectGroup :: "string list \<Rightarrow> Scene \<Rightarrow> string \<Rightarrow> Scene" where
  "removeSceneObjectGroup newIds s i =
     (if i \<in> set newIds then s
      else s\<lparr>sceneObjectsGroup :=
                (case map_of (sceneObjectMap s) i of
                   Some obj \<Rightarrow> remove1 obj (sceneObjectsGroup s)
                 | None \<Rightarrow> sceneObjectsGroup s),
              sceneObjectMap := AList.delete i (sceneObjectMap s)\<rparr>)"

definition syncSceneObject :: "Scene \<Rightarrow> SceneObject \<Rightarrow> Scene" where
  "syncSceneObject s objData =
     (case map_of (sceneObjectMap s) (so_id objData) of
        Some grp \<Rightarrow>
          (if obj_url (nodes s grp) \<noteq> Some (so_url objData) then
             loadSceneObject objData
               (s\<lparr>sceneObjectsGroup := remove1 grp (sceneObjectsGroup s),
                  sceneObjectMap := AList.delete (so_id objData) (sceneObjectMap s)\<rparr>)
           else s\<lparr>nodes := (nodes s)(grp := applySceneObjectTransform objData (nodes s grp))\<rparr>)
      | None \<Rightarrow> loadSceneObject objData s)"

definition syncSceneObjects :: "SceneObject list \<Rightarrow> Scene \<Rightarrow> Scene" where
  "syncSceneObjects objs s =
     foldl syncSceneObject
       (foldl (removeSceneObjectGroup (map so_id objs)) s (map fst (sceneObjectMap s)))
       objs"

subsection \<open>Fleet\<close>

text \<open>
  The paint material of a car is a clone of \<open>basePaint\<close>, made on first use and kept in
  \<open>materialsMap\<close> (the glass, rubber and chrome clones are never changed and are left
  out).
  \<^verbatim>\<open>
  private getOrCreateMaterials(carId: string): CarMaterials {
    if (this.materialsMap.has(carId)) { return this.materialsMap.get(carId)!; }
    const mats: CarMaterials = { paint: this.basePaint.clone(), ... };
    this.materialsMap.set(carId, mats);
    return mats;
  }
  \<close>
\<close>

definition basePaint :: CarMaterials where
  "basePaint = \<lparr>paint_color = ''#ffffff'', paint_metalness = 7 / 10, paint_roughness = 2 / 10\<rparr>"

definition getOrCreateMaterials :: "string \<Rightarrow> Scene \<Rightarrow> CarMaterials \<times> Scene" where
  "getOrCreateMaterials carId s =
     (case map_of (materialsMap s) carId of
        Some mats \<Rightarrow> (mats, s)
      | None \<Rightarrow> (basePaint, s\<lparr>materialsMap := AList.update carId basePaint (materialsMap s)\<rparr>))"

definition analyzeCarStructure :: "handle \<Rightarrow> Scene \<Rightarrow> Scene" where
  "analyzeCarStructure grp s = s\<lparr>analyzedGroup := Some grp\<rparr>"

text \<open>
  \<open>buildProceduralCar\<close> adds a body, a cabin and four wheel groups to the group, with
  the car's materials.
\<close>

definition buildProceduralCar :: "handle \<Rightarrow> CarConfig \<Rightarrow> Scene \<Rightarrow> Scene" where
  "buildProceduralCar grp config s =
     (case getOrCreateMaterials (car_id config) s of
        (mats, s1) \<Rightarrow>
          s1\<lparr>nodes := (nodes s1)(grp := (nodes s1 grp)\<lparr>obj_children :=
                 obj_children (nodes s1 grp) @
                 [Procedural ''procedural_body'', Procedural ''procedural_glass'',
                  Procedural ''procedural_wheel'', Procedural ''procedural_wheel'',
                  Procedural ''procedural_wheel'', Procedural ''procedural_wheel'']\<rparr>)\<rparr>)"

text \<open>
  \<^verbatim>\<open>
  private createCarGroup(carConfig: any) {
      const group = new THREE.Group();
      group.name = carConfig.id;
      group.userData['modelUrl'] = carConfig.modelUrl;
      this.carMap.set(carConfig.id, group);
      this.fleetGroup.add(group);
      if (carConfig.modelUrl) {
          this.store.incrementLoading();
          this.gltfLoader.load(carConfig.modelUrl, (gltf) => { ... }, undefined, (err) => { ... });
      } else {
          this.buildProceduralCar(group, carConfig);
          if (this.store.activeCar().id === carConfig.id) { this.analyzeCarStructure(group); }
      }
  }
  \<close>
\<close>

definition createCarGroup :: "AppConfig \<Rightarrow> CarConfig \<Rightarrow> Scene \<Rightarrow> Scene outcome" where
  "createCarGroup c carConfig s =
     (let grp = nextHandle s;
          s1 = s\<lparr>nodes := (nodes s)(grp := newGroup\<lparr>obj_name := car_id carConfig,
                                                      obj_url := car_modelUrl carConfig\<rparr>),
                 nextHandle := Suc grp,
                 carMap := AList.update (car_id carConfig) grp (carMap s),
                 fleetGroup := fleetGroup s @ [grp]\<rparr>
      in if truthy (car_modelUrl carConfig) then
           (s1\<lparr>loadingCount := incrementLoading (loadingCount s1),
               pendingLoads := pendingLoads s1 @ [CarLoad carConfig grp]\<rparr>, None)
         else
           (let s2 = buildProceduralCar grp carConfig s1
            in case activeCar c of
                 None \<Rightarrow> (s2, Some TypeError)
               | Some a \<Rightarrow>
                   (if car_id a = car_id carConfig then analyzeCarStructure grp s2 else s2, None)))"

text \<open>
  \<^verbatim>\<open>
  private syncFleet(fleet: any[]) {
      const currentIds = Array.from(this.carMap.keys());
      currentIds.forEach(id => {
          const group = this.carMap.get(id);
          if (!group) return;
          const carConfig = fleet.find(c => c.id === id);
          let shouldRemove = false;
          if (!carConfig) shouldRemove = true;
          else if (group.userData['modelUrl'] !== carConfig.modelUrl) shouldRemove = true;
          if (shouldRemove) {
              this.fleetGroup.remove(group);
              this.carMap.delete(id);
              this.materialsMap.get(id)?.paint.dispose(); ...
              this.materialsMap.delete(id);
          }
      });
      fleet.forEach((carConfig, index) => {
          const mats = this.getOrCreateMaterials(carConfig.id);
          mats.paint.color.set(carConfig.color);
          mats.paint.metalness = carConfig.metalness;
          mats.paint.roughness = carConfig.roughness;
          if (!this.carMap.has(carConfig.id)) { this.createCarGroup(carConfig); }
      });
      const activeCar = this.store.activeCar();
      const activeGroup = this.carMap.get(activeCar.id);
      if (activeGroup) {
          this.analyzeCarStructure(activeGroup);
          if (this.underglowLight.parent !== activeGroup) { activeGroup.add(this.underglowLight); }
          this.underglowLight.color.set(activeCar.underglowColor || activeCar.color);
          if (this.engineSound && this.ignitionSound) {
             activeGroup.add(this.engineSound);
             activeGroup.add(this.ignitionSound);
          }
      }
  }
  \<close>
\<close>

definition removeCarGroup :: "CarConfig list \<Rightarrow> Scene \<Rightarrow> string \<Rightarrow> Scene" where
  "removeCarGroup cars s i =
     (case map_of (carMap s) i of
        None \<Rightarrow> s
      | Some grp \<Rightarrow>
          (let shouldRemove =
                 (case find (\<lambda>c. car_id c = i) cars of
                    None \<Rightarrow> True
                  | Some carConfig \<Rightarrow> obj_url (nodes s grp) \<noteq> car_modelUrl carConfig)
           in if shouldRemove then
                s\<lparr>fleetGroup := remove1 grp (fleetGroup s),
                   carMap := AList.delete i (carMap s),
                   materialsMap := AList.delete i (materialsMap s)\<rparr>
              else s))"

definition syncCar :: "AppConfig \<Rightarrow> Scene \<Rightarrow> CarConfig \<Rightarrow> Scene outcome" where
  "syncCar c s carConfig =
     (case getOrCreateMaterials (car_id carConfig) s of
        (mats, s1) \<Rightarrow>
          (let s2 = s1\<lparr>materialsMap :=
                          AList.update (car_id carConfig)
                            (mats\<lparr>paint_color := car_color carConfig,
                                  paint_metalness := car_metalness carConfig,
                                  paint_roughness := car_roughness carConfig\<rparr>)
                            (materialsMap s1)\<rparr>
           in if map_of (carMap s2) (car_id carConfig) = None
              then createCarGroup c carConfig s2
              else (s2, None)))"

text \<open>A \<^verbatim>\<open>forEach\<close> whose body may throw: the first exception ends the loop.\<close>

fun forEachThrowing :: "('s \<Rightarrow> 'a \<Rightarrow> 's outcome) \<Rightarrow> 'a list \<Rightarrow> 's \<Rightarrow> 's outcome" where
  "forEachThrowing body [] s = (s, None)"
| "forEachThrowing body (x # xs) s =
     (case body s x of
        (s', Some e) \<Rightarrow> (s', Some e)
      | (s', None) \<Rightarrow> forEachThrowing body xs s')"

definition attachToActiveGroup :: "CarConfig \<Rightarrow> handle \<Rightarrow> Scene \<Rightarrow> Scene" where
  "attachToActiveGroup activeCarConfig activeGroup s =
     (let s1 = analyzeCarStructure activeGroup s
      in s1\<lparr>underglowParent := Some activeGroup,
             underglowColor :=
               (if car_underglowColor activeCarConfig \<noteq> [] then car_underglowColor activeCarConfig
                else car_color activeCarConfig),
             soundParent := (if soundsReady s1 then Some activeGroup else soundParent s1)\<rparr>)"

definition syncFleet :: "AppConfig \<Rightarrow> CarConfig list \<Rightarrow> Scene \<Rightarrow> Scene outcome" where
  "syncFleet c cars s =
     (case forEachThrowing (syncCar c) cars
             (foldl (removeCarGroup cars) s (map fst (carMap s))) of
        (s2, Some e) \<Rightarrow> (s2, Some e)
      | (s2, None) \<Rightarrow>
          (case activeCar c of
             None \<Rightarrow> (s2, Some TypeError)
           | Some a \<Rightarrow>
               (case map_of (carMap s2) (car_id a) of
                  None \<Rightarrow> (s2, None)
                | Some activeGroup \<Rightarrow> (attachToActiveGroup a activeGroup s2, None))))"

subsection \<open>Load completions\<close>

text \<open>
  The callbacks given to \<^verbatim>\<open>gltfLoader.load\<close>. They run later, in the state and with the
  configuration of that moment; \<open>anchor\<close> and \<open>group\<close> are the objects the closure
  captured when the load was started.
  \<^verbatim>\<open>
  // loadEnvironmentModel
  (gltf) => { if (this.envObjectMap.has(env.id)) { const model = gltf.scene; ...; anchor.add(model); }
              this.store.decrementLoading(); }
  // loadSceneObject
  (gltf) => { if (this.sceneObjectMap.has(objData.id)) { const model = gltf.scene; ...; group.add(model); }
              this.store.decrementLoading(); }
  // createCarGroup
  (gltf) => { const model = gltf.scene; ...
              const mats = this.getOrCreateMaterials(carConfig.id);
              model.traverse(...);
              group.add(model);
              if (this.store.activeCar().id === carConfig.id) { this.analyzeCarStructure(group); }
              this.store.decrementLoading(); }
  // each error callback
  (err) => { console.error(...); this.store.decrementLoading(); }
  \<close>
\<close>

definition attachModel :: "handle \<Rightarrow> string \<Rightarrow> Scene \<Rightarrow> Scene" where
  "attachModel grp url s =
     s\<lparr>nodes := (nodes s)(grp := (nodes s grp)\<lparr>obj_children :=
          obj_children (nodes s grp) @ [GltfScene url]\<rparr>)\<rparr>"

definition storeDecrementLoading :: "Scene \<Rightarrow> Scene" where
  "storeDecrementLoading s = s\<lparr>loadingCount := decrementLoading (loadingCount s)\<rparr>"

definition environmentLoaded :: "EnvironmentItem \<Rightarrow> handle \<Rightarrow> Scene \<Rightarrow> Scene" where
  "environmentLoaded env anchor s =
     storeDecrementLoading
       (if map_of (envObjectMap s) (env_id env) \<noteq> None then attachModel anchor (env_url env) s
        else s)"

definition sceneObjectLoaded :: "SceneObject \<Rightarrow> handle \<Rightarrow> Scene \<Rightarrow> Scene" where
  "sceneObjectLoaded objData grp s =
     storeDecrementLoading
       (if map_of (sceneObjectMap s) (so_id objData) \<noteq> None
        then attachModel grp (so_url objData) s
        else s)"

definition carLoaded :: "AppConfig \<Rightarrow> CarConfig \<Rightarrow> handle \<Rightarrow> Scene \<Rightarrow> Scene outcome" where
  "carLoaded c carConfig grp s =
     (case getOrCreateMaterials (car_id carConfig) s of
        (mats, s1) \<Rightarrow>
          (let s2 = attachModel grp (case car_modelUrl carConfig of Some u \<Rightarrow> u | None \<Rightarrow> []) s1
           in case activeCar c of
                None \<Rightarrow> (s2, Some TypeError)
              | Some a \<Rightarrow>
                  (storeDecrementLoading
                     (if car_id a = car_id carConfig then analyzeCarStructure grp s2 else s2),
                   None)))"

text \<open>The loader calls the success callback of a pending request.\<close>

definition loadCompleted :: "AppConfig \<Rightarrow> load_request \<Rightarrow> Scene \<Rightarrow> Scene outcome" where
  "loadCompleted c req s =
     (let s0 = s\<lparr>pendingLoads := remove1 req (pendingLoads s)\<rparr>
      in case req of
           EnvLoad env anchor \<Rightarrow> (environmentLoaded env anchor s0, None)
         | SceneObjectLoad objData grp \<Rightarrow> (sceneObjectLoaded objData grp s0, None)
         | CarLoad carConfig grp \<Rightarrow> carLoaded c carConfig grp s0)"

text \<open>The loader calls the error callback of a pending request.\<close>

definition loadFailed :: "load_request \<Rightarrow> Scene \<Rightarrow> Scene" where
  "loadFailed req s = storeDecrementLoading (s\<lparr>pendingLoads := remove1 req (pendingLoads s)\<rparr>)"

subsection \<open>Updates and load completions, in any order\<close>

text \<open>
  The service runs \<open>syncEnvironments\<close>, \<open>syncSceneObjects\<close> and \<open>syncFleet\<close> first in
  \<open>init\<close> and then whenever the store publishes a configuration whose environments,
  scene objects or fleet changed:
  \<^verbatim>\<open>effect(() => { const objs = this.store.config().sceneObjects;
                  if (this.isInitialized) { this.syncSceneObjects(objs); } });\<close>
  \<^verbatim>\<open>effect(() => { const fleet = this.store.config().fleet;
                  if (this.isInitialized) this.syncFleet(fleet); });\<close>
  Between two such passes the loader may call back any request it still holds. An
  exception ends the pass or callback that threw and leaves the state it had reached.
\<close>

datatype scene_event =
    EnvironmentsChanged "EnvironmentItem list"
  | SceneObjectsChanged "SceneObject list"
  | FleetChanged AppConfig
  | LoadSucceeded AppConfig load_request
  | LoadErrored load_request

fun sceneStep :: "Scene \<Rightarrow> scene_event \<Rightarrow> Scene" where
  "sceneStep s (EnvironmentsChanged envs) = syncEnvironments envs s"
| "sceneStep s (SceneObjectsChanged objs) = syncSceneObjects objs s"
| "sceneStep s (FleetChanged c) = fst (syncFleet c (fleet c) s)"
| "sceneStep s (LoadSucceeded c req) =
     (if req \<in> set (pendingLoads s) then fst (loadCompleted c req s) else s)"
| "sceneStep s (LoadErrored req) =
     (if req \<in> set (pendingLoads s) then loadFailed req s else s)"

definition sceneAfter :: "scene_event list \<Rightarrow> Scene" where
  "sceneAfter events = foldl sceneStep initialScene events"

text \<open>The ids of a live map.\<close>

abbreviation liveIds :: "(string \<times> handle) list \<Rightarrow> string set" where
  "liveIds m \<equiv> fst ` set m"

text \<open>
  What a pass over \<open>objs\<close> (or \<open>envs\<close>) does to a group that stays the group of id
  \<open>i\<close> throughout: the transform of each entry with that id is applied, in order.
\<close>

definition soTransforms :: "string \<Rightarrow> SceneObject list \<Rightarrow> Object3D \<Rightarrow> Object3D" where
  "soTransforms i objs n =
     foldl (\<lambda>n e. if so_id e = i then applySceneObjectTransform e n else n) n objs"

definition envTransforms :: "string \<Rightarrow> EnvironmentItem list \<Rightarrow> Object3D \<Rightarrow> Object3D" where
  "envTransforms i envs n =
     foldl (\<lambda>n e. if env_id e = i then applyEnvironmentTransform e n else n) n envs"

text \<open>
  The loads that the step from \<open>s\<close> to \<open>s'\<close> handed to the loader (requests are appended
  to \<open>pendingLoads\<close>), and the id of the entity a load was started for. \<open>extendsLoads\<close>
  says that the step only started loads, each with \<open>Q\<close>, and counted each one in
  \<open>loadingCount\<close>.
\<close>

definition startedLoads :: "Scene \<Rightarrow> Scene \<Rightarrow> load_request list" where
  "startedLoads s s' = drop (length (pendingLoads s)) (pendingLoads s')"

fun loadId :: "load_request \<Rightarrow> string" where
  "loadId (EnvLoad env anchor) = env_id env"
| "loadId (SceneObjectLoad objData grp) = so_id objData"
| "loadId (CarLoad carConfig grp) = car_id carConfig"

definition extendsLoads :: "(load_request \<Rightarrow> bool) \<Rightarrow> Scene \<Rightarrow> Scene \<Rightarrow> bool" where
  "extendsLoads Q s s' =
     (\<exists>new. pendingLoads s' = pendingLoads s @ new \<and>
            loadingCount s' = loadingCount s + int (length new) \<and> (\<forall>r \<in> set new. Q r))"

text \<open>
  The invariant of the live maps that the proofs below rest on: every live group was
  allocated (its handle is below \<open>nextHandle\<close>), is a child of the parent group, and
  belongs to one id only.
\<close>

definition liveWf :: "(string \<times> handle) list \<Rightarrow> handle list \<Rightarrow> handle \<Rightarrow> bool" where
  "liveWf m grp n =
     ((\<forall>j h. map_of m j = Some h \<longrightarrow> h < n \<and> h \<in> set grp) \<and>
      (\<forall>j j' h. map_of m j = Some h \<and> map_of m j' = Some h \<longrightarrow> j = j'))"

definition wfScene :: "Scene \<Rightarrow> bool" where
  "wfScene s =
     (liveWf (envObjectMap s) (wallModelGroup s) (nextHandle s) \<and>
      liveWf (sceneObjectMap s) (sceneObjectsGroup s) (nextHandle s) \<and>
      liveWf (carMap s) (fleetGroup s) (nextHandle s))"

section \<open>Example inputs\<close>

text \<open>Concrete values at which the theorems below are evaluated.\<close>

definition demoCar :: CarConfig where
  "demoCar = \<lparr>car_id = ''lfa-next'', car_color = ''#FF9900'', car_underglowColor = ''#FF8800'',
     car_roughness = 1 / 10, car_metalness = 6 / 10, car_modelUrl = None,
     car_driveSoundUrl = None, car_ignitionSoundUrl = None\<rparr>"

definition demoConfig :: AppConfig where
  "demoConfig = \<lparr>activeCarIndex = 0, fleet = [demoCar], environments = [],
     activeEnvironmentId = None, sceneObjects = []\<rparr>"

text \<open>
  The simulation state right after start-up: the car stands at the origin, its group is
  object 0 and its one tracked wheel is object 1.
\<close>

definition demoSim :: Sim where
  "demoSim = \<lparr>speed = 0, steering = 0, carAngle = 0, explodeFactor = 0,
     currentCarParams = \<lparr>wheels = [1], bodyParts = [], hoodParts = [], chassisParts = [],
        originalPositions = [1 \<mapsto> (1, 0, 1)], originalRotations = [1 \<mapsto> (0, 0, 0)]\<rparr>,
     objects = (\<lambda>h. newGroup), simCarMap = [(''lfa-next'', 0)],
     isEngineRunning = False,
     engineSound = \<lparr>au_buffer = False, au_isPlaying = False, au_playbackRate = 1,
        au_onEnded = DefaultOnEnded, au_sourceOnEnded = None\<rparr>,
     ignitionSound = \<lparr>au_buffer = False, au_isPlaying = False, au_playbackRate = 1,
        au_onEnded = DefaultOnEnded, au_sourceOnEnded = None\<rparr>,
     currentEngineSoundId = None, pendingAudioLoads = [], soundsParent = None,
     simLoadingCount = 0\<rparr>"





definition demoObject :: "string \<Rightarrow> SceneObject" where
  "demoObject url = \<lparr>so_id = ''o1'', so_url = url, so_position = (0, 0, 0),
     so_rotation = (0, 0, 0), so_scale = (1, 1, 1)\<rparr>"

definition demoEnvironment :: "string \<Rightarrow> EnvironmentItem" where
  "demoEnvironment url = \<lparr>env_id = ''e1'', env_url = url, env_scale = 1,
     env_position = (0, 0, 0)\<rparr>"

text \<open>The demo car with a model to load, and a fleet that holds only another car.\<close>

definition demoModelCar :: "string \<Rightarrow> CarConfig" where
  "demoModelCar url = demoCar\<lparr>car_modelUrl := Some url\<rparr>"

definition demoModelConfig :: "string \<Rightarrow> AppConfig" where
  "demoModelConfig url = demoConfig\<lparr>fleet := [demoModelCar url]\<rparr>"

definition otherCarConfig :: AppConfig where
  "otherCarConfig = demoConfig\<lparr>fleet := [demoCar\<lparr>car_id := ''lf-z''\<rparr>]\<rparr>"

text \<open>A tick in the given section with the given keys held and joystick position.\<close>

definition frame :: "string \<Rightarrow> real \<Rightarrow> string list \<Rightarrow> real \<times> real \<Rightarrow> Frame" where
  "frame section dt held joystick = \<lparr>f_delta = dt, f_elapsed = 0, f_section = section,
     f_isMenuOpen = False, f_joystick = joystick, f_keys = (\<lambda>k. k \<in> set held)\<rparr>"

section \<open>Properties of the store\<close>

lemma loadingCall_nonneg: "0 \<le> c \<Longrightarrow> 0 \<le> loadingCall c call"
  by (cases call) (simp_all add: incrementLoading_def decrementLoading_def)

lemma foldl_loadingCall_nonneg: "0 \<le> c \<Longrightarrow> 0 \<le> foldl loadingCall c calls"
  by (induction calls arbitrary: c) (simp_all add: loadingCall_nonneg)

text \<open>
  C9: starting from the initial counter 0, after any sequence of \<open>incrementLoading\<close> and
  \<open>decrementLoading\<close> calls the counter is not negative, and \<open>isLoading\<close> holds exactly
  when the counter is strictly positive.
\<close>

theorem loadingCount_never_negative:
  "0 \<le> loadingCalls initialLoadingCount calls \<and>
   isLoading (loadingCalls initialLoadingCount calls) = (0 < loadingCalls initialLoadingCount calls)"
  by (simp add: loadingCalls_def initialLoadingCount_def isLoading_def foldl_loadingCall_nonneg)

theorem loadingCount_never_negative_witness:
  "0 \<le> loadingCalls initialLoadingCount [DecrementLoading, IncrementLoading, DecrementLoading, DecrementLoading] \<and>
   loadingCalls initialLoadingCount [DecrementLoading, IncrementLoading, DecrementLoading, DecrementLoading] = 0 \<and>
   \<not> isLoading (loadingCalls initialLoadingCount [DecrementLoading, IncrementLoading, DecrementLoading, DecrementLoading])"
  using loadingCount_never_negative [of "[DecrementLoading, IncrementLoading, DecrementLoading, DecrementLoading]"]
  by (simp add: loadingCalls_def initialLoadingCount_def isLoading_def incrementLoading_def decrementLoading_def)

text \<open>
  C10 (as amended): \<open>removeEnvironment i\<close> keeps, in their order and unchanged, exactly the
  environments whose id is not \<open>i\<close>, so that no remaining environment has id \<open>i\<close>, and
  leaves every other field of the configuration alone. The active id afterwards is
  \<^verbatim>\<open>null\<close>, the id it was, or the id of a remaining environment. It rewrites \<open>activeEnvironmentId\<close> only when that was \<open>i\<close>: the new value is the
  id of the first remaining environment when there is one and its id is not the empty
  string, and \<^verbatim>\<open>null\<close> otherwise.
\<close>

theorem removeEnvironment_effect:
  "environments (removeEnvironment i c) = filter (\<lambda>e. env_id e \<noteq> i) (environments c) \<and>
   i \<notin> env_id ` set (environments (removeEnvironment i c)) \<and>
   activeEnvironmentId (removeEnvironment i c) \<in>
     {None, activeEnvironmentId c} \<union> Some ` env_id ` set (environments (removeEnvironment i c)) \<and>
   fleet (removeEnvironment i c) = fleet c \<and>
   activeCarIndex (removeEnvironment i c) = activeCarIndex c \<and>
   sceneObjects (removeEnvironment i c) = sceneObjects c \<and>
   activeEnvironmentId (removeEnvironment i c) =
     (if activeEnvironmentId c = Some i
      then (case environments (removeEnvironment i c) of
              [] \<Rightarrow> None
            | e # _ \<Rightarrow> (if env_id e = [] then None else Some (env_id e)))
      else activeEnvironmentId c)"
proof -
  let ?es = "filter (\<lambda>e. env_id e \<noteq> i) (environments c)"
  have e: "environments (removeEnvironment i c) = ?es"
    by (simp add: removeEnvironment_def Let_def)
  have n: "i \<notin> env_id ` set ?es" by auto
  have f: "firstIdOrNull ?es \<in> {None} \<union> Some ` env_id ` set ?es"
  proof (cases ?es)
    case Nil
    then show ?thesis by (simp add: firstIdOrNull_def)
  next
    case (Cons x xs)
    then have "x \<in> set ?es" by (metis list.set_intros(1))
    then have "Some (env_id x) \<in> Some ` env_id ` set ?es" by (intro imageI)
    then show ?thesis using Cons by (simp add: firstIdOrNull_def)
  qed
  have a: "activeEnvironmentId (removeEnvironment i c) =
             (if activeEnvironmentId c = Some i then firstIdOrNull ?es else activeEnvironmentId c)"
    by (simp add: removeEnvironment_def Let_def)
  have m: "activeEnvironmentId (removeEnvironment i c) \<in>
             {None, activeEnvironmentId c} \<union> Some ` env_id ` set ?es"
    using f unfolding a by (cases "activeEnvironmentId c = Some i") auto
  have r: "fleet (removeEnvironment i c) = fleet c \<and>
           activeCarIndex (removeEnvironment i c) = activeCarIndex c \<and>
           sceneObjects (removeEnvironment i c) = sceneObjects c"
    by (simp add: removeEnvironment_def Let_def)
  have k: "activeEnvironmentId (removeEnvironment i c) =
     (if activeEnvironmentId c = Some i
      then (case ?es of
              [] \<Rightarrow> None
            | e # _ \<Rightarrow> (if env_id e = [] then None else Some (env_id e)))
      else activeEnvironmentId c)"
    unfolding a by (simp add: firstIdOrNull_def)
  show ?thesis unfolding e using n m r k by (intro conjI) simp_all
qed

theorem removeEnvironment_effect_witness:
  "environments (removeEnvironment ''a''
      \<lparr>activeCarIndex = 0, fleet = [],
       environments = [\<lparr>env_id = ''a'', env_url = ''a.glb'', env_scale = 1, env_position = (0, 0, 0)\<rparr>,
                       \<lparr>env_id = ''b'', env_url = ''b.glb'', env_scale = 2, env_position = (0, 0, 0)\<rparr>],
       activeEnvironmentId = Some ''a'', sceneObjects = []\<rparr>)
     = [\<lparr>env_id = ''b'', env_url = ''b.glb'', env_scale = 2, env_position = (0, 0, 0)\<rparr>] \<and>
   activeEnvironmentId (removeEnvironment ''a''
      \<lparr>activeCarIndex = 0, fleet = [],
       environments = [\<lparr>env_id = ''a'', env_url = ''a.glb'', env_scale = 1, env_position = (0, 0, 0)\<rparr>,
                       \<lparr>env_id = ''b'', env_url = ''b.glb'', env_scale = 2, env_position = (0, 0, 0)\<rparr>],
       activeEnvironmentId = Some ''a'', sceneObjects = []\<rparr>) = Some ''b''"
  using removeEnvironment_effect [of "''a''"
      "\<lparr>activeCarIndex = 0, fleet = [],
       environments = [\<lparr>env_id = ''a'', env_url = ''a.glb'', env_scale = 1, env_position = (0, 0, 0)\<rparr>,
                       \<lparr>env_id = ''b'', env_url = ''b.glb'', env_scale = 2, env_position = (0, 0, 0)\<rparr>],
       activeEnvironmentId = Some ''a'', sceneObjects = []\<rparr>"]
  by simp

text \<open>
  The claim as first stated fails where the first remaining environment has the empty
  string as its id: one environment remains, and the active id becomes \<^verbatim>\<open>null\<close>
  instead of that id.
\<close>

theorem removeEnvironment_counterexample:
  "environments (removeEnvironment ''a''
      \<lparr>activeCarIndex = 0, fleet = [],
       environments = [\<lparr>env_id = ''a'', env_url = ''a.glb'', env_scale = 1, env_position = (0, 0, 0)\<rparr>,
                       \<lparr>env_id = [], env_url = ''b.glb'', env_scale = 2, env_position = (0, 0, 0)\<rparr>],
       activeEnvironmentId = Some ''a'', sceneObjects = []\<rparr>)
     = [\<lparr>env_id = [], env_url = ''b.glb'', env_scale = 2, env_position = (0, 0, 0)\<rparr>] \<and>
   activeEnvironmentId (removeEnvironment ''a''
      \<lparr>activeCarIndex = 0, fleet = [],
       environments = [\<lparr>env_id = ''a'', env_url = ''a.glb'', env_scale = 1, env_position = (0, 0, 0)\<rparr>,
                       \<lparr>env_id = [], env_url = ''b.glb'', env_scale = 2, env_position = (0, 0, 0)\<rparr>],
       activeEnvironmentId = Some ''a'', sceneObjects = []\<rparr>) = None \<and>
   None \<noteq> Some (env_id \<lparr>env_id = [], env_url = ''b.glb'', env_scale = 2, env_position = (0, 0, 0)\<rparr>)"
  by (simp add: removeEnvironment_def firstIdOrNull_def Let_def)

lemma activeCar_nonempty:
  "fleet c \<noteq> [] \<Longrightarrow>
   activeCar c = Some (if 0 \<le> activeCarIndex c \<and> activeCarIndex c < int (length (fleet c))
                        then fleet c ! nat (activeCarIndex c) else hd (fleet c))"
  by (cases "fleet c") (simp_all add: activeCar_def jsIndex_def)

lemma updateConfig_fleet:
  "fleet (updateConfig (noUpdate\<lparr>p_fleet := Some newFleet\<rparr>) c) = newFleet \<and>
   activeCarIndex (updateConfig (noUpdate\<lparr>p_fleet := Some newFleet\<rparr>) c) = activeCarIndex c"
  by (simp add: updateConfig_def noUpdate_def)

text \<open>
  C3 (as amended): after the fleet is replaced by any non-empty list (so after removing
  vehicles, the one at \<open>activeCarIndex\<close> included, as long as one vehicle remains), the
  active car resolves to a vehicle of the remaining fleet: the one now at
  \<open>activeCarIndex\<close> when that index is still in range, the first remaining one otherwise;
  the per-frame read of its id yields that vehicle's id. The store's own fleet
  replacement (\<open>pollServerCars\<close>) never turns a non-empty fleet into an empty one.
\<close>

theorem activeCar_after_removal:
  assumes "newFleet \<noteq> []"
  shows "activeCar (updateConfig (noUpdate\<lparr>p_fleet := Some newFleet\<rparr>) c) =
           Some (if 0 \<le> activeCarIndex c \<and> activeCarIndex c < int (length newFleet)
                 then newFleet ! nat (activeCarIndex c) else hd newFleet) \<and>
         the (activeCar (updateConfig (noUpdate\<lparr>p_fleet := Some newFleet\<rparr>) c)) \<in> set newFleet \<and>
         activeCarId (updateConfig (noUpdate\<lparr>p_fleet := Some newFleet\<rparr>) c) =
           Inr (car_id (the (activeCar (updateConfig (noUpdate\<lparr>p_fleet := Some newFleet\<rparr>) c)))) \<and>
         fleet (pollServerCars serverCars (updateConfig (noUpdate\<lparr>p_fleet := Some newFleet\<rparr>) c)) \<noteq> []"
proof -
  let ?c = "updateConfig (noUpdate\<lparr>p_fleet := Some newFleet\<rparr>) c"
  have f: "fleet ?c \<noteq> []" using assms by (simp add: updateConfig_fleet)
  have a: "activeCar ?c =
           Some (if 0 \<le> activeCarIndex c \<and> activeCarIndex c < int (length newFleet)
                 then newFleet ! nat (activeCarIndex c) else hd newFleet)"
    using activeCar_nonempty [OF f] by (simp add: updateConfig_fleet)
  have m: "the (activeCar ?c) \<in> set newFleet"
    using assms by (auto simp: a)
  have r: "activeCarId ?c = Inr (car_id (the (activeCar ?c)))"
    by (simp add: activeCarId_def a)
  have p: "fleet (pollServerCars serverCars ?c) \<noteq> []"
    using f by (simp add: pollServerCars_def)
  from a m r p show ?thesis by blast
qed

theorem activeCar_after_removal_witness:
  "activeCar (updateConfig
      (noUpdate\<lparr>p_fleet := Some
         [\<lparr>car_id = ''lfa-next'', car_color = ''#FF9900'', car_underglowColor = ''#FF8800'',
           car_roughness = 1 / 10, car_metalness = 6 / 10, car_modelUrl = None,
     car_driveSoundUrl = None, car_ignitionSoundUrl = None\<rparr>]\<rparr>)
      \<lparr>activeCarIndex = 1,
       fleet = [\<lparr>car_id = ''lfa-next'', car_color = ''#FF9900'', car_underglowColor = ''#FF8800'',
                  car_roughness = 1 / 10, car_metalness = 6 / 10, car_modelUrl = None,
     car_driveSoundUrl = None, car_ignitionSoundUrl = None\<rparr>,
                \<lparr>car_id = ''lf-z'', car_color = ''#0055ff'', car_underglowColor = ''#0044cc'',
                  car_roughness = 2 / 10, car_metalness = 8 / 10, car_modelUrl = None,
     car_driveSoundUrl = None, car_ignitionSoundUrl = None\<rparr>],
       environments = [], activeEnvironmentId = None, sceneObjects = []\<rparr>)
   = Some \<lparr>car_id = ''lfa-next'', car_color = ''#FF9900'', car_underglowColor = ''#FF8800'',
            car_roughness = 1 / 10, car_metalness = 6 / 10, car_modelUrl = None,
     car_driveSoundUrl = None, car_ignitionSoundUrl = None\<rparr>"
  using activeCar_after_removal [of
      "[\<lparr>car_id = ''lfa-next'', car_color = ''#FF9900'', car_underglowColor = ''#FF8800'',
           car_roughness = 1 / 10, car_metalness = 6 / 10, car_modelUrl = None,
     car_driveSoundUrl = None, car_ignitionSoundUrl = None\<rparr>]"
      "\<lparr>activeCarIndex = 1,
       fleet = [\<lparr>car_id = ''lfa-next'', car_color = ''#FF9900'', car_underglowColor = ''#FF8800'',
                  car_roughness = 1 / 10, car_metalness = 6 / 10, car_modelUrl = None,
     car_driveSoundUrl = None, car_ignitionSoundUrl = None\<rparr>,
                \<lparr>car_id = ''lf-z'', car_color = ''#0055ff'', car_underglowColor = ''#0044cc'',
                  car_roughness = 2 / 10, car_metalness = 8 / 10, car_modelUrl = None,
     car_driveSoundUrl = None, car_ignitionSoundUrl = None\<rparr>],
       environments = [], activeEnvironmentId = None, sceneObjects = []\<rparr>"]
  by simp

text \<open>
  The claim as first stated fails twice. With three vehicles and the middle one active,
  removing the middle one resolves to the third vehicle, which is not the first
  remaining one. With every vehicle removed there is no "none" state: the active car is
  \<^verbatim>\<open>undefined\<close> and the per-frame read of its id throws.
\<close>

theorem activeCar_counterexample:
  "activeCar (updateConfig
      (noUpdate\<lparr>p_fleet := Some
         [\<lparr>car_id = ''lfa-next'', car_color = ''#FF9900'', car_underglowColor = ''#FF8800'',
           car_roughness = 1 / 10, car_metalness = 6 / 10, car_modelUrl = None,
     car_driveSoundUrl = None, car_ignitionSoundUrl = None\<rparr>,
          \<lparr>car_id = ''rz-450'', car_color = ''#d48c55'', car_underglowColor = ''#d48c55'',
           car_roughness = 2 / 10, car_metalness = 7 / 10, car_modelUrl = None,
     car_driveSoundUrl = None, car_ignitionSoundUrl = None\<rparr>]\<rparr>)
      \<lparr>activeCarIndex = 1,
       fleet = [\<lparr>car_id = ''lfa-next'', car_color = ''#FF9900'', car_underglowColor = ''#FF8800'',
                  car_roughness = 1 / 10, car_metalness = 6 / 10, car_modelUrl = None,
     car_driveSoundUrl = None, car_ignitionSoundUrl = None\<rparr>,
                \<lparr>car_id = ''lf-z'', car_color = ''#0055ff'', car_underglowColor = ''#0044cc'',
                  car_roughness = 2 / 10, car_metalness = 8 / 10, car_modelUrl = None,
     car_driveSoundUrl = None, car_ignitionSoundUrl = None\<rparr>,
                \<lparr>car_id = ''rz-450'', car_color = ''#d48c55'', car_underglowColor = ''#d48c55'',
                  car_roughness = 2 / 10, car_metalness = 7 / 10, car_modelUrl = None,
     car_driveSoundUrl = None, car_ignitionSoundUrl = None\<rparr>],
       environments = [], activeEnvironmentId = None, sceneObjects = []\<rparr>)
   = Some \<lparr>car_id = ''rz-450'', car_color = ''#d48c55'', car_underglowColor = ''#d48c55'',
            car_roughness = 2 / 10, car_metalness = 7 / 10, car_modelUrl = None,
     car_driveSoundUrl = None, car_ignitionSoundUrl = None\<rparr> \<and>
   car_id \<lparr>car_id = ''rz-450'', car_color = ''#d48c55'', car_underglowColor = ''#d48c55'',
            car_roughness = 2 / 10, car_metalness = 7 / 10, car_modelUrl = None,
     car_driveSoundUrl = None, car_ignitionSoundUrl = None\<rparr> \<noteq> ''lfa-next'' \<and>
   activeCar (updateConfig (noUpdate\<lparr>p_fleet := Some []\<rparr>)
      \<lparr>activeCarIndex = 1,
       fleet = [\<lparr>car_id = ''lfa-next'', car_color = ''#FF9900'', car_underglowColor = ''#FF8800'',
                  car_roughness = 1 / 10, car_metalness = 6 / 10, car_modelUrl = None,
     car_driveSoundUrl = None, car_ignitionSoundUrl = None\<rparr>],
       environments = [], activeEnvironmentId = None, sceneObjects = []\<rparr>) = None \<and>
   activeCarId (updateConfig (noUpdate\<lparr>p_fleet := Some []\<rparr>)
      \<lparr>activeCarIndex = 1,
       fleet = [\<lparr>car_id = ''lfa-next'', car_color = ''#FF9900'', car_underglowColor = ''#FF8800'',
                  car_roughness = 1 / 10, car_metalness = 6 / 10, car_modelUrl = None,
     car_driveSoundUrl = None, car_ignitionSoundUrl = None\<rparr>],
       environments = [], activeEnvironmentId = None, sceneObjects = []\<rparr>) = Inl TypeError"
  by (simp add: activeCar_def activeCarId_def jsIndex_def updateConfig_def noUpdate_def)

section \<open>Properties of the driving simulation\<close>

lemma steerInput_range: "- (6 / 10) \<le> steerInput f \<and> steerInput f \<le> 6 / 10"
  unfolding steerInput_def by (intro conjI max.cobounded1) (simp add: max_def min_def)

lemma drive_steering: "steering (drive f g s) = lerp (steering s) (steerInput f) (f_delta f * 5)"
  by (simp add: drive_def Let_def split: prod.splits)

text \<open>
  C8 (as amended): in drive mode the value handed to the steering smoother is
  \<open>steerInput\<close>, which always lies in \<open>[-0.6, 0.6]\<close>. With the left key held and the
  joystick at \<open>x = -1\<close> (both sources steer the same way) it is the maximum \<open>0.6\<close> and not
  the sum \<open>1.2\<close>; with the left key held and the joystick at \<open>x = 1\<close> the two sources
  cancel and it is \<open>0\<close>.
\<close>

theorem steerInput_clamped:
  "steering (drive f g s) = lerp (steering s) (steerInput f) (f_delta f * 5) \<and>
   - (6 / 10) \<le> steerInput f \<and> steerInput f \<le> 6 / 10 \<and>
   (isLeft f \<and> fst (f_joystick f) = - 1 \<longrightarrow> steerInput f = 6 / 10) \<and>
   (isLeft f \<and> fst (f_joystick f) = 1 \<longrightarrow> steerInput f = 0)"
proof -
  have "isLeft f \<and> fst (f_joystick f) = - 1 \<longrightarrow> steerInput f = 6 / 10"
    by (simp add: steerInput_def)
  moreover have "isLeft f \<and> fst (f_joystick f) = 1 \<longrightarrow> steerInput f = 0"
    by (simp add: steerInput_def)
  ultimately show ?thesis
    using steerInput_range [of f] drive_steering [of f g s] by blast
qed

theorem steerInput_clamped_witness:
  "isLeft (frame ''drive'' (1 / 60) [''a''] (- 1, 0)) \<and>
   fst (f_joystick (frame ''drive'' (1 / 60) [''a''] (- 1, 0))) = - 1 \<and>
   steerInput (frame ''drive'' (1 / 60) [''a''] (- 1, 0)) = 6 / 10 \<and>
   isLeft (frame ''drive'' (1 / 60) [''arrowleft''] (1, 0)) \<and>
   fst (f_joystick (frame ''drive'' (1 / 60) [''arrowleft''] (1, 0))) = 1 \<and>
   steerInput (frame ''drive'' (1 / 60) [''arrowleft''] (1, 0)) = 0"
  using steerInput_clamped [of "frame ''drive'' (1 / 60) [''a''] (- 1, 0)" 0 demoSim]
    steerInput_clamped [of "frame ''drive'' (1 / 60) [''arrowleft''] (1, 0)" 0 demoSim]
  by (simp add: frame_def isLeft_def)

text \<open>
  The claim as first stated fails: with the joystick axis at \<open>{x: 1, y: 0}\<close> and the left
  key held, the combined steering input is \<open>0\<close>, not \<open>0.6\<close>.
\<close>

theorem steerInput_counterexample:
  "isLeft (frame ''drive'' (1 / 60) [''a''] (1, 0)) \<and>
   f_joystick (frame ''drive'' (1 / 60) [''a''] (1, 0)) = (1, 0) \<and>
   steerInput (frame ''drive'' (1 / 60) [''a''] (1, 0)) = 0 \<and>
   steerInput (frame ''drive'' (1 / 60) [''a''] (1, 0)) \<noteq> 6 / 10"
  by (simp add: frame_def isLeft_def isRight_def steerInput_def)

lemma drive_speed:
  "speed (drive f g s) = driveSpeed f (speed s) \<or>
   speed (drive f g s) = driveSpeed f (speed s) * (- (1 / 2))"
  by (simp add: drive_def Let_def split: prod.splits)

lemma driveSpeed_nobrake:
  "\<not> isBrake f \<Longrightarrow> - (98 / 5) \<le> driveSpeed f v \<and> driveSpeed f v \<le> 392 / 5"
  by (simp add: driveSpeed_def max_def min_def)

lemma driveSpeed_brake: "isBrake f \<Longrightarrow> driveSpeed f v = v * (1 - 2 * f_delta f)"
  by (simp add: driveSpeed_def lerp_def algebra_simps)

lemma speed_enginePitch: "speed (enginePitch s) = speed s"
  by (simp add: enginePitch_def)

lemma speed_explode: "speed (explode f s) = speed s"
  by (simp add: explode_def Let_def)

lemma speed_showroomPhase: "speed (showroomPhase c f ag s) = speed s"
  by (simp add: showroomPhase_def Let_def speed_explode split: option.splits)

lemma speed_walkPhase: "speed (walkPhase f ag s) = speed s"
  by (simp add: walkPhase_def split: option.splits)

lemma speed_drivePhase:
  "speed (drivePhase f ag s) = speed s \<or>
   speed (drivePhase f ag s) = driveSpeed f (speed s) \<or>
   speed (drivePhase f ag s) = driveSpeed f (speed s) * (- (1 / 2))"
  using drive_speed by (auto simp: drivePhase_def split: option.splits)

text \<open>What a tick can do to the speed: nothing, the drive step, or the drive step and a bounce.\<close>

lemma speed_tick:
  "speed (tick c s f) = speed s \<or>
   speed (tick c s f) = driveSpeed f (speed s) \<or>
   speed (tick c s f) = driveSpeed f (speed s) * (- (1 / 2))"
proof (cases "animate c f s")
  case (Inl e)
  then show ?thesis by (simp add: tick_def)
next
  case (Inr s')
  then have "s' = s \<or>
      (\<exists>ag. s' = walkPhase f ag (drivePhase f ag (showroomPhase c f ag (enginePitch s))))"
    by (auto simp: animate_def Let_def split: option.splits if_splits)
  then show ?thesis
  proof
    assume "s' = s"
    with Inr show ?thesis by (simp add: tick_def)
  next
    assume "\<exists>ag. s' = walkPhase f ag (drivePhase f ag (showroomPhase c f ag (enginePitch s)))"
    then obtain ag
      where s': "s' = walkPhase f ag (drivePhase f ag (showroomPhase c f ag (enginePitch s)))"
      by blast
    have "speed (showroomPhase c f ag (enginePitch s)) = speed s"
      by (simp add: speed_showroomPhase speed_enginePitch)
    with speed_drivePhase [of f ag "showroomPhase c f ag (enginePitch s)"]
    show ?thesis using Inr s' by (simp add: tick_def speed_walkPhase)
  qed
qed

lemma scale_interval:
  fixes k v a b :: real
  assumes "0 \<le> k" "k \<le> 1" "- a \<le> v" "v \<le> b" "0 \<le> a" "0 \<le> b"
  shows "- a \<le> k * v \<and> k * v \<le> b"
proof (cases "0 \<le> v")
  case True
  then have "0 \<le> k * v" using assms(1) by simp
  moreover have "k * v \<le> 1 * v" using True assms(2) by (intro mult_right_mono)
  ultimately show ?thesis using assms by linarith
next
  case False
  then have "k * v \<le> 0" using assms(1) by (simp add: mult_nonneg_nonpos)
  moreover have "1 * v \<le> k * v" using False assms(2) by (intro mult_right_mono_neg) simp_all
  ultimately show ?thesis using assms by linarith
qed

lemma lerp_between:
  fixes e t d :: real
  assumes "0 \<le> d" "d \<le> 1"
  shows "(e \<le> t \<longrightarrow> e \<le> lerp e t d \<and> lerp e t d \<le> t) \<and>
         (t \<le> e \<longrightarrow> t \<le> lerp e t d \<and> lerp e t d \<le> e)"
proof -
  have eq: "lerp e t d = e + d * (t - e)" by (simp add: lerp_def algebra_simps)
  have eq2: "lerp e t d = t - (1 - d) * (t - e)" by (simp add: lerp_def algebra_simps)
  show ?thesis
  proof (intro conjI impI)
    assume "e \<le> t"
    then have "0 \<le> d * (t - e)" "0 \<le> (1 - d) * (t - e)" using assms by simp_all
    then show "e \<le> lerp e t d" "lerp e t d \<le> t" using eq eq2 by linarith+
  next
    assume "t \<le> e"
    then have "d * (t - e) \<le> 0" "(1 - d) * (t - e) \<le> 0" using assms
      by (simp_all add: mult_nonneg_nonpos)
    then show "t \<le> lerp e t d" "lerp e t d \<le> e" using eq eq2 by linarith+
  qed
qed

lemma driveSpeed_inv:
  assumes "- (196 / 5) \<le> v \<and> v \<le> 392 / 5"
    and "isBrake f \<longrightarrow> 0 \<le> f_delta f \<and> f_delta f \<le> 1 / 2"
  shows "(- (196 / 5) \<le> driveSpeed f v \<and> driveSpeed f v \<le> 392 / 5) \<and>
         (- (196 / 5) \<le> driveSpeed f v * (- (1 / 2)) \<and> driveSpeed f v * (- (1 / 2)) \<le> 392 / 5)"
proof (cases "isBrake f")
  case False
  from driveSpeed_nobrake [OF False, of v] show ?thesis by simp
next
  case True
  with assms(2) have k: "0 \<le> 1 - 2 * f_delta f" "1 - 2 * f_delta f \<le> 1" by simp_all
  have "- (196 / 5) \<le> (1 - 2 * f_delta f) * v \<and> (1 - 2 * f_delta f) * v \<le> 392 / 5"
    using scale_interval [OF k, of "196 / 5" v "392 / 5"] assms(1) by simp
  then show ?thesis
    using driveSpeed_brake [OF True, of v] by (simp add: mult.commute)
qed

lemma tick_inv:
  assumes "- (196 / 5) \<le> speed s \<and> speed s \<le> 392 / 5"
    and "isBrake f \<longrightarrow> 0 \<le> f_delta f \<and> f_delta f \<le> 1 / 2"
  shows "- (196 / 5) \<le> speed (tick c s f) \<and> speed (tick c s f) \<le> 392 / 5"
  using speed_tick [of c s f] driveSpeed_inv [OF assms] assms(1) by auto

lemma ticks_inv:
  assumes "\<forall>f \<in> set fs. isBrake f \<longrightarrow> 0 \<le> f_delta f \<and> f_delta f \<le> 1 / 2"
    and "- (196 / 5) \<le> speed s \<and> speed s \<le> 392 / 5"
  shows "- (196 / 5) \<le> speed (ticks c s fs) \<and> speed (ticks c s fs) \<le> 392 / 5"
  using assms unfolding ticks_def
proof (induction fs arbitrary: s)
  case Nil
  then show ?case by simp
next
  case (Cons f fs)
  have "- (196 / 5) \<le> speed (tick c s f) \<and> speed (tick c s f) \<le> 392 / 5"
    using Cons.prems by (intro tick_inv) simp_all
  with Cons show ?case by simp
qed

lemma brake_abs:
  assumes "isBrake f" "0 \<le> f_delta f" "f_delta f \<le> 1"
  shows "\<bar>speed (tick c s f)\<bar> \<le> \<bar>speed s\<bar>"
proof -
  have "\<bar>1 - 2 * f_delta f\<bar> \<le> 1" using assms by (simp add: abs_le_iff)
  then have "\<bar>speed s * (1 - 2 * f_delta f)\<bar> \<le> \<bar>speed s\<bar>"
    by (simp add: abs_mult mult_left_le)
  then have d: "\<bar>driveSpeed f (speed s)\<bar> \<le> \<bar>speed s\<bar>"
    using driveSpeed_brake [OF assms(1), of "speed s"] by simp
  then have "\<bar>driveSpeed f (speed s) * (- (1 / 2))\<bar> \<le> \<bar>speed s\<bar>"
    by (simp add: abs_mult)
  with d speed_tick [of c s f] show ?thesis by auto
qed

lemma brake_step_strict:
  assumes "isBrake f" "0 < f_delta f" "f_delta f < 1" "v \<noteq> 0"
  shows "\<bar>driveSpeed f v\<bar> < \<bar>v\<bar>"
proof -
  have "\<bar>1 - 2 * f_delta f\<bar> < 1" using assms(2,3) by (simp add: abs_less_iff)
  moreover have "0 < \<bar>v\<bar>" using assms(4) by simp
  ultimately have "\<bar>v\<bar> * \<bar>1 - 2 * f_delta f\<bar> < \<bar>v\<bar> * 1" by (intro mult_strict_left_mono)
  then show ?thesis using driveSpeed_brake [OF assms(1), of v] by (simp add: abs_mult)
qed

lemma brake_step_toward_zero:
  assumes "isBrake f" "0 \<le> f_delta f" "f_delta f \<le> 1 / 2"
  shows "(0 \<le> v \<longrightarrow> 0 \<le> driveSpeed f v \<and> driveSpeed f v \<le> v) \<and>
         (v \<le> 0 \<longrightarrow> v \<le> driveSpeed f v \<and> driveSpeed f v \<le> 0)"
proof -
  have d: "0 \<le> f_delta f * 2" "f_delta f * 2 \<le> 1" using assms(2,3) by simp_all
  have "driveSpeed f v = lerp v 0 (f_delta f * 2)" using assms(1) by (simp add: driveSpeed_def)
  with lerp_between [OF d, of v 0] show ?thesis by simp
qed

text \<open>A tick in drive mode with the menu closed and the active car's group present runs the drive step.\<close>

lemma tick_drive:
  assumes "f_section f = ''drive''" "\<not> f_isMenuOpen f" "activeCar c = Some a"
    "map_of (simCarMap s) (car_id a) = Some g"
  shows "speed (tick c s f) = driveSpeed f (speed s) \<or>
         speed (tick c s f) = driveSpeed f (speed s) * (- (1 / 2))"
proof -
  let ?s1 = "showroomPhase c f (Some g) (enginePitch s)"
  have m: "simCarMap (enginePitch s) = simCarMap s" by (simp add: enginePitch_def)
  have t: "tick c s f = walkPhase f (Some g) (drive f g ?s1)"
    using assms by (simp add: tick_def animate_def Let_def m drivePhase_def)
  have "speed ?s1 = speed s" by (simp add: speed_showroomPhase speed_enginePitch)
  with drive_speed [of f g ?s1] show ?thesis unfolding t by (simp add: speed_walkPhase)
qed

lemma brake_tick_strict:
  assumes "isBrake f" "0 < f_delta f" "f_delta f < 1" "speed s \<noteq> 0"
    and "f_section f = ''drive''" "\<not> f_isMenuOpen f" "activeCar c = Some a"
    "map_of (simCarMap s) (car_id a) = Some g"
  shows "\<bar>speed (tick c s f)\<bar> < \<bar>speed s\<bar>"
proof -
  note d = brake_step_strict [OF assms(1-4)]
  then have "\<bar>driveSpeed f (speed s) * (- (1 / 2))\<bar> < \<bar>speed s\<bar>" by (simp add: abs_mult)
  with d tick_drive [OF assms(5-8)] show ?thesis by auto
qed

text \<open>
  C4 (as amended): over any sequence of ticks in which every tick with the brake held
  has \<open>0 \<le> \<Delta>t \<le> 1/2\<close> (ticks without the brake may have any \<open>\<Delta>t\<close>), a speed that starts
  in \<open>[-39.2, 78.4]\<close> (it starts at 0) stays in \<open>[-39.2, 78.4]\<close>: the throttle step clamps to
  \<open>[-20, 80]\<close> and applies the drag 0.98, and a boundary bounce then multiplies by
  \<open>-0.5\<close>. The throttle step itself (\<open>driveSpeed\<close> without the brake) always ends in
  \<open>[-19.6, 78.4]\<close>, inside \<open>[-20, 80]\<close>, whatever the speed and \<open>\<Delta>t\<close> were.
  With the brake held the drive step multiplies the speed by \<open>1 - 2\<Delta>t\<close>. So for
  \<open>0 < \<Delta>t < 1\<close> and a speed that is not 0 the magnitude of the speed strictly decreases,
  in the drive step and over the whole tick whenever the tick runs the drive step (drive
  mode, menu closed, the active car's group present), bounce or not; for
  \<open>0 \<le> \<Delta>t \<le> 1/2\<close> the drive step moves the speed toward 0 without passing it. On no tick
  with the brake held and \<open>0 \<le> \<Delta>t \<le> 1\<close> does the magnitude grow.
\<close>

theorem driving_speed_bounds:
  assumes "\<forall>f \<in> set fs. isBrake f \<longrightarrow> 0 \<le> f_delta f \<and> f_delta f \<le> 1 / 2"
    and "- (196 / 5) \<le> speed s \<and> speed s \<le> 392 / 5"
  shows "(- (196 / 5) \<le> speed (ticks c s fs) \<and> speed (ticks c s fs) \<le> 392 / 5) \<and>
         (\<not> isBrake f \<longrightarrow> - (98 / 5) \<le> driveSpeed f v \<and> driveSpeed f v \<le> 392 / 5) \<and>
         (isBrake f \<longrightarrow> driveSpeed f v = v * (1 - 2 * f_delta f)) \<and>
         (isBrake f \<and> 0 < f_delta f \<and> f_delta f < 1 \<and> v \<noteq> 0 \<longrightarrow> \<bar>driveSpeed f v\<bar> < \<bar>v\<bar>) \<and>
         (isBrake f \<and> 0 \<le> f_delta f \<and> f_delta f \<le> 1 / 2 \<longrightarrow>
            (0 \<le> v \<longrightarrow> 0 \<le> driveSpeed f v \<and> driveSpeed f v \<le> v) \<and>
            (v \<le> 0 \<longrightarrow> v \<le> driveSpeed f v \<and> driveSpeed f v \<le> 0)) \<and>
         (isBrake f \<and> 0 < f_delta f \<and> f_delta f < 1 \<and> speed s' \<noteq> 0 \<and>
          f_section f = ''drive'' \<and> \<not> f_isMenuOpen f \<and> activeCar c = Some a \<and>
          map_of (simCarMap s') (car_id a) = Some g \<longrightarrow>
            \<bar>speed (tick c s' f)\<bar> < \<bar>speed s'\<bar>) \<and>
         (isBrake f \<and> 0 \<le> f_delta f \<and> f_delta f \<le> 1 \<longrightarrow> \<bar>speed (tick c s' f)\<bar> \<le> \<bar>speed s'\<bar>)"
proof -
  have c2: "\<not> isBrake f \<longrightarrow> - (98 / 5) \<le> driveSpeed f v \<and> driveSpeed f v \<le> 392 / 5"
    using driveSpeed_nobrake [of f v] by blast
  have c3: "isBrake f \<longrightarrow> driveSpeed f v = v * (1 - 2 * f_delta f)"
    using driveSpeed_brake [of f v] by blast
  have c4: "isBrake f \<and> 0 < f_delta f \<and> f_delta f < 1 \<and> v \<noteq> 0 \<longrightarrow> \<bar>driveSpeed f v\<bar> < \<bar>v\<bar>"
    using brake_step_strict [of f v] by blast
  have c5: "isBrake f \<and> 0 \<le> f_delta f \<and> f_delta f \<le> 1 / 2 \<longrightarrow>
            (0 \<le> v \<longrightarrow> 0 \<le> driveSpeed f v \<and> driveSpeed f v \<le> v) \<and>
            (v \<le> 0 \<longrightarrow> v \<le> driveSpeed f v \<and> driveSpeed f v \<le> 0)"
    using brake_step_toward_zero [of f v] by blast
  have c6: "isBrake f \<and> 0 < f_delta f \<and> f_delta f < 1 \<and> speed s' \<noteq> 0 \<and>
          f_section f = ''drive'' \<and> \<not> f_isMenuOpen f \<and> activeCar c = Some a \<and>
          map_of (simCarMap s') (car_id a) = Some g \<longrightarrow>
            \<bar>speed (tick c s' f)\<bar> < \<bar>speed s'\<bar>"
    using brake_tick_strict [of f s' c a g] by blast
  have c7: "isBrake f \<and> 0 \<le> f_delta f \<and> f_delta f \<le> 1 \<longrightarrow> \<bar>speed (tick c s' f)\<bar> \<le> \<bar>speed s'\<bar>"
    using brake_abs [of f c s'] by blast
  have c1: "- (196 / 5) \<le> speed (ticks c s fs) \<and> speed (ticks c s fs) \<le> 392 / 5"
    by (rule ticks_inv [OF assms])
  show ?thesis
    by (rule conjI [OF c1 conjI [OF c2 conjI [OF c3 conjI [OF c4 conjI [OF c5 conjI [OF c6 c7]]]]]])
qed

theorem driving_speed_bounds_witness:
  "\<not> isBrake (frame ''drive'' 1 [''w''] (0, 0)) \<and>
   isBrake (frame ''drive'' (1 / 4) ['' ''] (0, 0)) \<and>
   f_delta (frame ''drive'' (1 / 4) ['' ''] (0, 0)) = 1 / 4 \<and>
   f_section (frame ''drive'' (1 / 4) ['' ''] (0, 0)) = ''drive'' \<and>
   \<not> f_isMenuOpen (frame ''drive'' (1 / 4) ['' ''] (0, 0)) \<and>
   activeCar demoConfig = Some demoCar \<and>
   map_of (simCarMap (ticks demoConfig demoSim [frame ''drive'' 1 [''w''] (0, 0)])) (car_id demoCar)
     = Some 0 \<and>
   speed demoSim = 0 \<and>
   speed (ticks demoConfig demoSim [frame ''drive'' 1 [''w''] (0, 0)]) = 147 / 5 \<and>
   driveSpeed (frame ''drive'' (1 / 4) ['' ''] (0, 0)) (147 / 5) = 147 / 10 \<and>
   \<bar>driveSpeed (frame ''drive'' (1 / 4) ['' ''] (0, 0)) (147 / 5)\<bar> < \<bar>147 / 5 :: real\<bar> \<and>
   \<bar>speed (tick demoConfig (ticks demoConfig demoSim [frame ''drive'' 1 [''w''] (0, 0)])
            (frame ''drive'' (1 / 4) ['' ''] (0, 0)))\<bar>
     < \<bar>speed (ticks demoConfig demoSim [frame ''drive'' 1 [''w''] (0, 0)])\<bar> \<and>
   speed (ticks demoConfig demoSim
      [frame ''drive'' 1 [''w''] (0, 0), frame ''drive'' (1 / 4) ['' ''] (0, 0)]) = 147 / 10 \<and>
   - (196 / 5) \<le> speed (ticks demoConfig demoSim
      [frame ''drive'' 1 [''w''] (0, 0), frame ''drive'' (1 / 4) ['' ''] (0, 0)]) \<and>
   speed (ticks demoConfig demoSim
      [frame ''drive'' 1 [''w''] (0, 0), frame ''drive'' (1 / 4) ['' ''] (0, 0)]) \<le> 392 / 5"
proof -
  let ?go = "frame ''drive'' 1 [''w''] (0, 0)"
  let ?brake = "frame ''drive'' (1 / 4) ['' ''] (0, 0)"
  let ?s1 = "ticks demoConfig demoSim [?go]"
  have h: "\<forall>f \<in> set [?go, ?brake]. isBrake f \<longrightarrow> 0 \<le> f_delta f \<and> f_delta f \<le> 1 / 2"
    by (simp add: frame_def isBrake_def)
  have s0: "- (196 / 5) \<le> speed demoSim \<and> speed demoSim \<le> 392 / 5"
    by (simp add: demoSim_def)
  have v1: "speed ?s1 = 147 / 5" and m1: "map_of (simCarMap ?s1) (car_id demoCar) = Some 0"
    by (simp_all add: ticks_def tick_def animate_def activeCar_def jsIndex_def demoConfig_def
        demoCar_def demoSim_def frame_def walkPhase_def drivePhase_def showroomPhase_def
        enginePitch_def drive_def driveSpeed_def throttle_def isUp_def isDown_def isBrake_def
        isLeft_def isRight_def steerInput_def lerp_def mapBounds_def forEachObject_def
        showOnly_def spinWheel_def newGroup_def Let_def)
  have v: "speed (ticks demoConfig demoSim [?go, ?brake]) = 147 / 10"
    by (simp add: ticks_def tick_def animate_def activeCar_def jsIndex_def demoConfig_def
        demoCar_def demoSim_def frame_def walkPhase_def drivePhase_def showroomPhase_def
        enginePitch_def drive_def driveSpeed_def throttle_def isUp_def isDown_def isBrake_def
        isLeft_def isRight_def steerInput_def lerp_def mapBounds_def forEachObject_def
        showOnly_def spinWheel_def newGroup_def Let_def)
  have s: "speed demoSim = 0" by (simp add: demoSim_def)
  have a: "activeCar demoConfig = Some demoCar"
    by (simp add: activeCar_def jsIndex_def demoConfig_def)
  have b: "\<not> isBrake ?go" "isBrake ?brake" "f_delta ?brake = 1 / 4"
    "f_section ?brake = ''drive''" "\<not> f_isMenuOpen ?brake"
    by (simp_all add: frame_def isBrake_def)
  note T = driving_speed_bounds [OF h s0, of demoConfig ?brake "147 / 5" ?s1 demoCar 0]
  from T have r: "- (196 / 5) \<le> speed (ticks demoConfig demoSim [?go, ?brake]) \<and>
      speed (ticks demoConfig demoSim [?go, ?brake]) \<le> 392 / 5" by (rule conjunct1)
  from T b have d: "driveSpeed ?brake (147 / 5) = 147 / 10" by simp
  from T b have d': "\<bar>driveSpeed ?brake (147 / 5)\<bar> < \<bar>147 / 5 :: real\<bar>" by simp
  from T b a m1 v1 have t: "\<bar>speed (tick demoConfig ?s1 ?brake)\<bar> < \<bar>speed ?s1\<bar>" by simp
  from b a m1 s v1 d d' t v r show ?thesis by (intro conjI) simp_all
qed

text \<open>
  The claim as first stated fails twice. Full throttle from rest with one-second ticks
  reaches the boundary on the fourth tick and bounces: the speed ends at \<open>-39.2\<close>, below
  \<open>-20\<close>. And a tick with the brake held and \<open>\<Delta>t = 2\<close> takes the speed from \<open>29.4\<close> to
  \<open>-88.2\<close>: outside the interval, and larger in magnitude. With \<open>\<Delta>t = 1\<close> the brake only
  flips the sign of the speed, from \<open>29.4\<close> to \<open>-29.4\<close>: the magnitude does not decrease.
\<close>

theorem driving_speed_counterexample:
  "speed (ticks demoConfig demoSim
      [frame ''drive'' 1 [''w''] (0, 0), frame ''drive'' 1 [''w''] (0, 0),
       frame ''drive'' 1 [''w''] (0, 0), frame ''drive'' 1 [''w''] (0, 0)]) = - (196 / 5) \<and>
   - (196 / 5) < (- 20 :: real) \<and>
   speed (ticks demoConfig demoSim [frame ''drive'' 1 [''w''] (0, 0)]) = 147 / 5 \<and>
   isBrake (frame ''drive'' 2 ['' ''] (0, 0)) \<and>
   speed (ticks demoConfig demoSim
      [frame ''drive'' 1 [''w''] (0, 0), frame ''drive'' 2 ['' ''] (0, 0)]) = - (441 / 5) \<and>
   \<bar>147 / 5 :: real\<bar> < \<bar>- (441 / 5)\<bar> \<and>
   isBrake (frame ''drive'' 1 ['' ''] (0, 0)) \<and>
   speed (ticks demoConfig demoSim
      [frame ''drive'' 1 [''w''] (0, 0), frame ''drive'' 1 ['' ''] (0, 0)]) = - (147 / 5) \<and>
   \<bar>- (147 / 5) :: real\<bar> = \<bar>147 / 5\<bar>"
  by (simp add: ticks_def tick_def animate_def activeCar_def jsIndex_def demoConfig_def
      demoCar_def demoSim_def frame_def walkPhase_def drivePhase_def showroomPhase_def
      enginePitch_def drive_def driveSpeed_def throttle_def isUp_def isDown_def isBrake_def
      isLeft_def isRight_def steerInput_def lerp_def mapBounds_def forEachObject_def
      showOnly_def spinWheel_def newGroup_def Let_def)

section \<open>Properties of the ignition sequence\<close>




















section \<open>Properties of the exploded view\<close>

lemma snap_position:
  "originalPositions cp h = Some p \<Longrightarrow> obj_position (snapToOriginal cp heap h) = p"
  by (simp add: snapToOriginal_def Let_def split: option.splits)

lemma snap_rotation:
  "originalRotations cp h = Some r \<Longrightarrow> obj_rotation (snapToOriginal cp heap h) = r"
  by (simp add: snapToOriginal_def Let_def split: option.splits)

lemma explode_factor:
  "explodeFactor (explode f s) =
     lerp (explodeFactor s) (if f_section f = ''engineering'' then 1 else 0) (f_delta f * 3)"
  by (simp add: explode_def Let_def)

lemma explode_params: "currentCarParams (explode f s) = currentCarParams s"
  by (simp add: explode_def Let_def)

lemma explode_snap:
  assumes "f_section f \<noteq> ''engineering''" and "explodeFactor (explode f s) \<le> 1 / 100"
  shows "objects (explode f s) = snapToOriginal (currentCarParams s) (objects s)"
  using assms by (simp add: explode_def Let_def split: if_splits)

lemma tick_showroom:
  assumes "activeCar c = Some a" and "map_of (simCarMap s) (car_id a) = Some g"
    and "\<not> f_isMenuOpen f" and "f_section f \<noteq> ''drive''" and "f_section f \<noteq> ''walk''"
  shows "tick c s f =
           explode f ((enginePitch s)\<lparr>objects :=
              lineup f (activeCarIndex c) (simCarMap s) (fleet c) 0 (objects s)\<rparr>)"
  using assms
  by (simp add: tick_def animate_def Let_def walkPhase_def drivePhase_def showroomPhase_def
      enginePitch_def)

lemma tick_showroom_params:
  assumes "activeCar c = Some a" and "map_of (simCarMap s) (car_id a) = Some g"
    and "\<not> f_isMenuOpen f" and "f_section f \<noteq> ''drive''" and "f_section f \<noteq> ''walk''"
  shows "currentCarParams (tick c s f) = currentCarParams s"
  by (simp add: tick_showroom [OF assms] explode_params enginePitch_def)

lemma tick_frozen:
  assumes "f_isMenuOpen f \<or> f_section f = ''drive'' \<or> f_section f = ''walk''"
  shows "explodeFactor (tick c s f) = explodeFactor s"
  using assms
  by (auto simp: tick_def animate_def Let_def walkPhase_def drivePhase_def showroomPhase_def
      enginePitch_def drive_def split: option.splits prod.splits)


text \<open>
  C5 (as amended): on a tick on which the exploded-view block runs (menu closed, section
  neither drive nor walk, the active car's group present), \<open>explodeFactor\<close> becomes
  \<open>lerp explodeFactor target (3 \<Delta>t)\<close> with target 1 in the engineering section and 0
  otherwise; for \<open>0 \<le> \<Delta>t \<le> 1/3\<close> it moves monotonically towards the target without
  passing it. If on such a tick outside the engineering section the new factor is at most
  0.01, every tracked part has exactly its recorded original position and rotation after
  the tick. On a tick with the menu open or in the drive or walk section the factor is
  left as it is.
\<close>

theorem explode_tick:
  assumes "activeCar c = Some a" and "map_of (simCarMap s) (car_id a) = Some g"
    and "\<not> f_isMenuOpen f" and "f_section f \<noteq> ''drive''" and "f_section f \<noteq> ''walk''"
  shows "explodeFactor (tick c s f) =
           lerp (explodeFactor s) (if f_section f = ''engineering'' then 1 else 0) (f_delta f * 3) \<and>
         (0 \<le> f_delta f \<and> f_delta f \<le> 1 / 3 \<and> f_section f = ''engineering'' \<and> explodeFactor s \<le> 1
            \<longrightarrow> explodeFactor s \<le> explodeFactor (tick c s f) \<and> explodeFactor (tick c s f) \<le> 1) \<and>
         (0 \<le> f_delta f \<and> f_delta f \<le> 1 / 3 \<and> f_section f \<noteq> ''engineering'' \<and> 0 \<le> explodeFactor s
            \<longrightarrow> 0 \<le> explodeFactor (tick c s f) \<and> explodeFactor (tick c s f) \<le> explodeFactor s) \<and>
         (f_section f \<noteq> ''engineering'' \<and> explodeFactor (tick c s f) \<le> 1 / 100 \<longrightarrow>
            (\<forall>h p. originalPositions (currentCarParams (tick c s f)) h = Some p
                     \<longrightarrow> obj_position (objects (tick c s f) h) = p) \<and>
            (\<forall>h r. originalRotations (currentCarParams (tick c s f)) h = Some r
                     \<longrightarrow> obj_rotation (objects (tick c s f) h) = r)) \<and>
         (f_isMenuOpen f' \<or> f_section f' = ''drive'' \<or> f_section f' = ''walk''
            \<longrightarrow> explodeFactor (tick c s f') = explodeFactor s)"
proof -
  let ?s1 = "(enginePitch s)\<lparr>objects :=
              lineup f (activeCarIndex c) (simCarMap s) (fleet c) 0 (objects s)\<rparr>"
  have t: "tick c s f = explode f ?s1" by (rule tick_showroom [OF assms])
  have e1: "explodeFactor ?s1 = explodeFactor s" by (simp add: enginePitch_def)
  have p1: "currentCarParams ?s1 = currentCarParams s" by (simp add: enginePitch_def)
  have a: "explodeFactor (tick c s f) =
           lerp (explodeFactor s) (if f_section f = ''engineering'' then 1 else 0) (f_delta f * 3)"
    by (simp add: t explode_factor e1)
  have b: "0 \<le> f_delta f \<and> f_delta f \<le> 1 / 3 \<and> f_section f = ''engineering'' \<and> explodeFactor s \<le> 1
            \<longrightarrow> explodeFactor s \<le> explodeFactor (tick c s f) \<and> explodeFactor (tick c s f) \<le> 1"
    using lerp_between [of "f_delta f * 3" "explodeFactor s" 1] by (simp add: a)
  have c: "0 \<le> f_delta f \<and> f_delta f \<le> 1 / 3 \<and> f_section f \<noteq> ''engineering'' \<and> 0 \<le> explodeFactor s
            \<longrightarrow> 0 \<le> explodeFactor (tick c s f) \<and> explodeFactor (tick c s f) \<le> explodeFactor s"
    using lerp_between [of "f_delta f * 3" "explodeFactor s" 0] by (simp add: a)
  have d: "f_section f \<noteq> ''engineering'' \<and> explodeFactor (tick c s f) \<le> 1 / 100 \<longrightarrow>
            (\<forall>h p. originalPositions (currentCarParams (tick c s f)) h = Some p
                     \<longrightarrow> obj_position (objects (tick c s f) h) = p) \<and>
            (\<forall>h r. originalRotations (currentCarParams (tick c s f)) h = Some r
                     \<longrightarrow> obj_rotation (objects (tick c s f) h) = r)"
  proof (intro impI, elim conjE)
    assume ne: "f_section f \<noteq> ''engineering''" and le: "explodeFactor (tick c s f) \<le> 1 / 100"
    from le have le': "explodeFactor (explode f ?s1) \<le> 1 / 100" by (simp add: t)
    have o: "objects (tick c s f) = snapToOriginal (currentCarParams s) (objects ?s1)"
      using explode_snap [OF ne le'] by (simp add: t p1)
    have p: "currentCarParams (tick c s f) = currentCarParams s"
      by (simp add: t explode_params p1)
    show "(\<forall>h p. originalPositions (currentCarParams (tick c s f)) h = Some p
                     \<longrightarrow> obj_position (objects (tick c s f) h) = p) \<and>
            (\<forall>h r. originalRotations (currentCarParams (tick c s f)) h = Some r
                     \<longrightarrow> obj_rotation (objects (tick c s f) h) = r)"
      by (simp add: o p snap_position snap_rotation)
  qed
  have e: "f_isMenuOpen f' \<or> f_section f' = ''drive'' \<or> f_section f' = ''walk''
            \<longrightarrow> explodeFactor (tick c s f') = explodeFactor s"
    using tick_frozen [of f' c s] by blast
  from a b c d e show ?thesis by blast
qed

theorem explode_tick_witness:
  "activeCar demoConfig = Some demoCar \<and> map_of (simCarMap demoSim) (car_id demoCar) = Some 0 \<and>
   originalPositions (currentCarParams demoSim) 1 = Some (1, 0, 1) \<and>
   explodeFactor
     (tick demoConfig
        (demoSim\<lparr>explodeFactor := 1 / 100,
                  objects := (objects demoSim)(1 := newGroup\<lparr>obj_position := (1, 1 / 50, 1)\<rparr>)\<rparr>)
        (frame ''showroom'' (1 / 60) [] (0, 0))) = 19 / 2000 \<and>
   obj_position (objects
     (tick demoConfig
        (demoSim\<lparr>explodeFactor := 1 / 100,
                  objects := (objects demoSim)(1 := newGroup\<lparr>obj_position := (1, 1 / 50, 1)\<rparr>)\<rparr>)
        (frame ''showroom'' (1 / 60) [] (0, 0))) 1) = (1, 0, 1)"
proof -
  let ?s = "demoSim\<lparr>explodeFactor := 1 / 100,
                  objects := (objects demoSim)(1 := newGroup\<lparr>obj_position := (1, 1 / 50, 1)\<rparr>)\<rparr>"
  let ?f = "frame ''showroom'' (1 / 60) [] (0, 0)"
  have h1: "activeCar demoConfig = Some demoCar"
    by (simp add: activeCar_def jsIndex_def demoConfig_def)
  have h2: "map_of (simCarMap ?s) (car_id demoCar) = Some 0"
    by (simp add: demoSim_def demoCar_def)
  have h3: "\<not> f_isMenuOpen ?f" "f_section ?f \<noteq> ''drive''" "f_section ?f \<noteq> ''walk''"
    "f_section ?f \<noteq> ''engineering''" "f_delta ?f = 1 / 60"
    by (simp_all add: frame_def)
  note T = explode_tick [OF h1 h2 h3(1) h3(2) h3(3)]
  have v: "explodeFactor (tick demoConfig ?s ?f) = 19 / 2000"
    using T by (simp add: h3 lerp_def)
  have "currentCarParams (tick demoConfig ?s ?f) = currentCarParams ?s"
    by (rule tick_showroom_params [OF h1 h2 h3(1) h3(2) h3(3)])
  then have p: "originalPositions (currentCarParams (tick demoConfig ?s ?f)) 1 = Some (1, 0, 1)"
    by (simp add: demoSim_def)
  have "obj_position (objects (tick demoConfig ?s ?f) 1) = (1, 0, 1)"
    using T h3(4) v p by simp
  moreover have "map_of (simCarMap demoSim) (car_id demoCar) = Some 0"
    "originalPositions (currentCarParams demoSim) 1 = Some (1, 0, 1)"
    by (simp_all add: demoSim_def demoCar_def)
  ultimately show ?thesis using h1 v by simp
qed

text \<open>
  The claim as first stated fails three times. In the drive section with
  \<open>explodeFactor = 0\<close> a tick spins the tracked wheel: its rotation is \<open>(58.8, 0, 0)\<close> and
  not the recorded \<open>(0, 0, 0)\<close>. In the drive section a factor of \<open>1/2\<close> is not moved at
  all. And in the engineering section a tick with \<open>\<Delta>t = 1\<close> takes the factor from 0 to 3,
  past the target 1 and further from it than before.
\<close>

theorem explode_counterexample:
  "explodeFactor (tick demoConfig demoSim (frame ''drive'' 1 [''w''] (0, 0))) = 0 \<and>
   originalRotations (currentCarParams (tick demoConfig demoSim (frame ''drive'' 1 [''w''] (0, 0)))) 1
     = Some (0, 0, 0) \<and>
   obj_rotation (objects (tick demoConfig demoSim (frame ''drive'' 1 [''w''] (0, 0))) 1)
     = (294 / 5, 0, 0) \<and>
   explodeFactor (tick demoConfig (demoSim\<lparr>explodeFactor := 1 / 2\<rparr>)
     (frame ''drive'' (1 / 60) [] (0, 0))) = 1 / 2 \<and>
   explodeFactor demoSim = 0 \<and>
   explodeFactor (tick demoConfig demoSim (frame ''engineering'' 1 [] (0, 0))) = 3"
  by (simp add: tick_def animate_def activeCar_def jsIndex_def demoConfig_def
      demoCar_def demoSim_def frame_def walkPhase_def drivePhase_def showroomPhase_def
      enginePitch_def drive_def driveSpeed_def throttle_def isUp_def isDown_def isBrake_def
      isLeft_def isRight_def steerInput_def lerp_def mapBounds_def forEachObject_def
      showOnly_def spinWheel_def newGroup_def explode_def Let_def)

section \<open>Properties of the entity synchronisation\<close>

lemma so_remove_keys:
  "liveIds (sceneObjectMap (foldl (removeSceneObjectGroup newIds) s ks)) =
   liveIds (sceneObjectMap s) - (set ks - set newIds)"
proof (induction ks arbitrary: s)
  case Nil
  then show ?case by simp
next
  case (Cons k ks)
  have "liveIds (sceneObjectMap (removeSceneObjectGroup newIds s k)) =
        liveIds (sceneObjectMap s) - ({k} - set newIds)"
    by (auto simp: removeSceneObjectGroup_def AList.delete_eq)
  with Cons show ?case by auto
qed

lemma loadSceneObject_keys:
  "liveIds (sceneObjectMap (loadSceneObject o1 s)) = insert (so_id o1) (liveIds (sceneObjectMap s))"
  by (simp add: loadSceneObject_def Let_def dom_update)

lemma syncSceneObject_keys:
  "liveIds (sceneObjectMap (syncSceneObject s o1)) = insert (so_id o1) (liveIds (sceneObjectMap s))"
proof (cases "map_of (sceneObjectMap s) (so_id o1)")
  case None
  then show ?thesis by (simp add: syncSceneObject_def loadSceneObject_keys)
next
  case (Some h)
  then have "so_id o1 \<in> liveIds (sceneObjectMap s)"
    by (meson domI domIff map_of_eq_None_iff)
  with Some show ?thesis
    by (auto simp: syncSceneObject_def loadSceneObject_keys AList.delete_eq)
qed

lemma so_loop_keys:
  "liveIds (sceneObjectMap (foldl syncSceneObject s objs)) = liveIds (sceneObjectMap s) \<union> so_id ` set objs"
  by (induction objs arbitrary: s) (auto simp: syncSceneObject_keys)

lemma syncSceneObjects_keys:
  "liveIds (sceneObjectMap (syncSceneObjects objs s)) = so_id ` set objs"
  by (auto simp: syncSceneObjects_def so_loop_keys so_remove_keys)

lemma env_remove_keys:
  "liveIds (envObjectMap (foldl (removeEnvironmentObject newIds) s ks)) =
   liveIds (envObjectMap s) - (set ks - set newIds)"
proof (induction ks arbitrary: s)
  case Nil
  then show ?case by simp
next
  case (Cons k ks)
  have "liveIds (envObjectMap (removeEnvironmentObject newIds s k)) =
        liveIds (envObjectMap s) - ({k} - set newIds)"
    by (auto simp: removeEnvironmentObject_def AList.delete_eq)
  with Cons show ?case by auto
qed

lemma syncEnvironment_keys:
  "liveIds (envObjectMap (syncEnvironment s e)) =
     liveIds (envObjectMap s) \<union> (if env_url e = [] then {} else {env_id e})"
proof (cases "map_of (envObjectMap s) (env_id e)")
  case None
  then show ?thesis by (simp add: syncEnvironment_def loadEnvironmentModel_def Let_def dom_update)
next
  case (Some h)
  then have "env_id e \<in> liveIds (envObjectMap s)"
    by (meson domI domIff map_of_eq_None_iff)
  with Some show ?thesis
    by (auto simp: syncEnvironment_def)
qed

lemma env_loop_keys:
  "liveIds (envObjectMap (foldl syncEnvironment s envs)) =
     liveIds (envObjectMap s) \<union> env_id ` {e \<in> set envs. env_url e \<noteq> []}"
  by (induction envs arbitrary: s) (auto simp: syncEnvironment_keys)

lemma syncEnvironments_keys:
  "liveIds (envObjectMap (syncEnvironments envs s)) =
     (liveIds (envObjectMap s) \<inter> env_id ` set envs) \<union> env_id ` {e \<in> set envs. env_url e \<noteq> []}"
  by (auto simp: syncEnvironments_def env_loop_keys env_remove_keys)

lemma removeCarGroup_keys:
  "liveIds (carMap (removeCarGroup cars s k)) \<subseteq> liveIds (carMap s) \<and>
   liveIds (carMap s) - {k} \<subseteq> liveIds (carMap (removeCarGroup cars s k)) \<and>
   (k \<notin> car_id ` set cars \<longrightarrow> k \<notin> liveIds (carMap (removeCarGroup cars s k)))"
proof (cases "map_of (carMap s) k")
  case None
  then have "k \<notin> liveIds (carMap s)" by (simp add: map_of_eq_None_iff)
  with None show ?thesis by (simp add: removeCarGroup_def)
next
  case (Some grp)
  have f: "k \<notin> car_id ` set cars \<Longrightarrow> find (\<lambda>c. car_id c = k) cars = None"
    by (auto simp: find_None_iff)
  show ?thesis using Some f
    by (auto simp: removeCarGroup_def Let_def AList.delete_eq split: option.splits)
qed

lemma fleet_remove_keys:
  "liveIds (carMap (foldl (removeCarGroup cars) s ks)) \<subseteq> liveIds (carMap s) \<and>
   liveIds (carMap s) - set ks \<subseteq> liveIds (carMap (foldl (removeCarGroup cars) s ks)) \<and>
   liveIds (carMap (foldl (removeCarGroup cars) s ks)) \<inter> set ks \<subseteq> car_id ` set cars"
proof (induction ks arbitrary: s)
  case Nil
  then show ?case by simp
next
  case (Cons k ks)
  define s1 where "s1 = removeCarGroup cars s k"
  define s2 where "s2 = foldl (removeCarGroup cars) s1 ks"
  have e: "foldl (removeCarGroup cars) s (k # ks) = s2" by (simp add: s1_def s2_def)
  have r1: "liveIds (carMap s1) \<subseteq> liveIds (carMap s)"
    and r2: "liveIds (carMap s) - {k} \<subseteq> liveIds (carMap s1)"
    and r3: "k \<notin> car_id ` set cars \<Longrightarrow> k \<notin> liveIds (carMap s1)"
    using removeCarGroup_keys [of cars s k] unfolding s1_def by blast+
  have i1: "liveIds (carMap s2) \<subseteq> liveIds (carMap s1)"
    and i2: "liveIds (carMap s1) - set ks \<subseteq> liveIds (carMap s2)"
    and i3: "liveIds (carMap s2) \<inter> set ks \<subseteq> car_id ` set cars"
    using Cons.IH [of s1] unfolding s2_def by blast+
  have a: "liveIds (carMap s2) \<subseteq> liveIds (carMap s)" using r1 i1 by blast
  have b: "liveIds (carMap s) - set (k # ks) \<subseteq> liveIds (carMap s2)"
  proof
    fix x assume "x \<in> liveIds (carMap s) - set (k # ks)"
    then have "x \<in> liveIds (carMap s) - {k}" "x \<notin> set ks" by auto
    with r2 i2 show "x \<in> liveIds (carMap s2)" by blast
  qed
  have c: "liveIds (carMap s2) \<inter> set (k # ks) \<subseteq> car_id ` set cars"
  proof
    fix x assume x: "x \<in> liveIds (carMap s2) \<inter> set (k # ks)"
    show "x \<in> car_id ` set cars"
    proof (cases "x \<in> set ks")
      case True
      with x i3 show ?thesis by blast
    next
      case False
      with x have xk: "x = k" by auto
      from x i1 have "x \<in> liveIds (carMap s1)" by blast
      with xk r3 show ?thesis by blast
    qed
  qed
  from a b c show ?case unfolding e by blast
qed

lemma fleet_remove_all_keys:
  "liveIds (carMap (foldl (removeCarGroup cars) s (map fst (carMap s)))) \<subseteq> car_id ` set cars"
proof -
  define s1 where "s1 = foldl (removeCarGroup cars) s (map fst (carMap s))"
  have "liveIds (carMap s1) \<subseteq> liveIds (carMap s)"
    and "liveIds (carMap s1) \<inter> set (map fst (carMap s)) \<subseteq> car_id ` set cars"
    using fleet_remove_keys [of cars s "map fst (carMap s)"] unfolding s1_def by blast+
  moreover have "set (map fst (carMap s)) = liveIds (carMap s)" by simp
  ultimately have "liveIds (carMap s1) \<subseteq> car_id ` set cars" by blast
  then show ?thesis unfolding s1_def .
qed

lemma getOrCreateMaterials_carMap: "carMap (snd (getOrCreateMaterials i s)) = carMap s"
  by (simp add: getOrCreateMaterials_def split: option.splits)

lemma createCarGroup_keys:
  "liveIds (carMap (fst (createCarGroup c car s))) = insert (car_id car) (liveIds (carMap s))"
  by (simp add: createCarGroup_def Let_def dom_update buildProceduralCar_def
      getOrCreateMaterials_def analyzeCarStructure_def split: option.splits prod.splits)

lemma syncCar_keys:
  "liveIds (carMap (fst (syncCar c s car))) = insert (car_id car) (liveIds (carMap s))"
proof -
  obtain mats s1 where g: "getOrCreateMaterials (car_id car) s = (mats, s1)"
    by (cases "getOrCreateMaterials (car_id car) s")
  then have c1: "carMap s1 = carMap s"
    using getOrCreateMaterials_carMap [of "car_id car" s] by simp
  show ?thesis
  proof (cases "map_of (carMap s) (car_id car)")
    case None
    then show ?thesis using g c1
      by (simp add: syncCar_def Let_def createCarGroup_keys)
  next
    case (Some h)
    then have "car_id car \<in> liveIds (carMap s)"
      by (meson domI domIff map_of_eq_None_iff)
    then show ?thesis using g c1 Some
      by (auto simp: syncCar_def Let_def)
  qed
qed

lemma syncCar_no_throw: "activeCar c \<noteq> None \<Longrightarrow> snd (syncCar c s car) = None"
  by (auto simp: syncCar_def Let_def createCarGroup_def split: option.splits prod.splits)

lemma forEach_syncCar:
  "activeCar c \<noteq> None \<Longrightarrow>
   forEachThrowing (syncCar c) cars s = (foldl (\<lambda>s car. fst (syncCar c s car)) s cars, None)"
proof (induction cars arbitrary: s)
  case Nil
  then show ?case by simp
next
  case (Cons car cars)
  obtain s' e where r: "syncCar c s car = (s', e)" by (cases "syncCar c s car")
  with syncCar_no_throw [OF Cons.prems, of s car] have "e = None" by simp
  with r Cons show ?case by simp
qed

lemma fleet_loop_keys:
  "liveIds (carMap (foldl (\<lambda>s car. fst (syncCar c s car)) s cars)) = liveIds (carMap s) \<union> car_id ` set cars"
  by (induction cars arbitrary: s) (auto simp: syncCar_keys)

lemma attachToActiveGroup_carMap: "carMap (attachToActiveGroup a g s) = carMap s"
  by (simp add: attachToActiveGroup_def analyzeCarStructure_def Let_def)

lemma activeCar_None_iff: "activeCar c = None \<longleftrightarrow> fleet c = []"
  by (cases "fleet c") (auto simp: activeCar_def jsIndex_def split: option.splits)

lemma syncFleet_keys:
  "liveIds (carMap (fst (syncFleet c (fleet c) s))) = car_id ` set (fleet c)"
proof -
  define s1 where "s1 = foldl (removeCarGroup (fleet c)) s (map fst (carMap s))"
  have k1: "liveIds (carMap s1) \<subseteq> car_id ` set (fleet c)"
    unfolding s1_def by (rule fleet_remove_all_keys)
  show ?thesis
  proof (cases "fleet c = []")
    case True
    then have a: "activeCar c = None" by (simp add: activeCar_None_iff)
    from k1 True have "carMap s1 = []" by simp
    then show ?thesis using True a by (simp add: syncFleet_def s1_def)
  next
    case False
    then have a: "activeCar c \<noteq> None" by (simp add: activeCar_None_iff)
    define s2 where "s2 = foldl (\<lambda>s car. fst (syncCar c s car)) s1 (fleet c)"
    have k2: "liveIds (carMap s2) = car_id ` set (fleet c)"
      using k1 unfolding s2_def by (auto simp: fleet_loop_keys)
    have "carMap (fst (syncFleet c (fleet c) s)) = carMap s2"
      using a by (auto simp: syncFleet_def forEach_syncCar [OF a] attachToActiveGroup_carMap
          s1_def s2_def split: option.splits)
    with k2 show ?thesis by simp
  qed
qed

lemma liveWf_mono: "liveWf m grp n \<Longrightarrow> n \<le> n' \<Longrightarrow> liveWf m grp n'"
  unfolding liveWf_def by (meson less_le_trans)

lemma liveWf_delete:
  assumes "liveWf m grp n"
  shows "liveWf (AList.delete i m)
           (case map_of m i of Some h \<Rightarrow> remove1 h grp | None \<Rightarrow> grp) n"
  unfolding liveWf_def
proof (intro conjI allI impI)
  fix j h assume a: "map_of (AList.delete i m) j = Some h"
  then have ji: "j \<noteq> i" and mj: "map_of m j = Some h"
    by (auto simp: delete_conv' split: if_splits)
  from assms mj have hn: "h < n" and hg: "h \<in> set grp" unfolding liveWf_def by blast+
  show "h < n" by (rule hn)
  show "h \<in> set (case map_of m i of Some h \<Rightarrow> remove1 h grp | None \<Rightarrow> grp)"
  proof (cases "map_of m i")
    case None
    then show ?thesis using hg by simp
  next
    case (Some h')
    with assms mj ji have "h \<noteq> h'" unfolding liveWf_def by blast
    with hg Some show ?thesis by (simp add: in_set_remove1)
  qed
next
  fix j j' h assume "map_of (AList.delete i m) j = Some h \<and> map_of (AList.delete i m) j' = Some h"
  then have "map_of m j = Some h" "map_of m j' = Some h"
    by (auto simp: delete_conv' split: if_splits)
  with assms show "j = j'" unfolding liveWf_def by blast
qed

lemma liveWf_add:
  assumes "liveWf m grp n"
  shows "liveWf (AList.update i n m) (grp @ [n]) (Suc n)"
  unfolding liveWf_def
proof (intro conjI allI impI)
  fix j h assume a: "map_of (AList.update i n m) j = Some h"
  have b: "h < Suc n \<and> h \<in> set (grp @ [n])"
  proof (cases "j = i")
    case True
    with a show ?thesis by (simp add: update_conv')
  next
    case False
    with a have "map_of m j = Some h" by (simp add: update_conv')
    with assms show ?thesis unfolding liveWf_def by (auto simp: less_Suc_eq)
  qed
  from b show "h < Suc n" by simp
  from b show "h \<in> set (grp @ [n])" by simp
next
  fix j j' h
  assume a: "map_of (AList.update i n m) j = Some h \<and> map_of (AList.update i n m) j' = Some h"
  have old: "\<And>k h'. k \<noteq> i \<Longrightarrow> map_of (AList.update i n m) k = Some h' \<Longrightarrow> h' < n \<and> map_of m k = Some h'"
    using assms unfolding liveWf_def by (simp add: update_conv')
  show "j = j'"
  proof (cases "j = i")
    case ji: True
    show ?thesis
    proof (cases "j' = i")
      case True
      with ji show ?thesis by simp
    next
      case False
      with a ji old [of j' h] show ?thesis by (simp add: update_conv')
    qed
  next
    case ji: False
    show ?thesis
    proof (cases "j' = i")
      case True
      with a ji old [of j h] show ?thesis by (simp add: update_conv')
    next
      case False
      with a ji old [of j h] old [of j' h] assms show ?thesis unfolding liveWf_def by blast
    qed
  qed
qed

lemma liveWf_delete_Some:
  "liveWf m grp n \<Longrightarrow> map_of m i = Some h \<Longrightarrow> liveWf (AList.delete i m) (remove1 h grp) n"
  using liveWf_delete [of m grp n i] by simp

lemma liveWf_delete_None:
  "liveWf m grp n \<Longrightarrow> map_of m i = None \<Longrightarrow> liveWf (AList.delete i m) grp n"
  using liveWf_delete [of m grp n i] by simp

lemma wf_removeEnvironmentObject: "wfScene s \<Longrightarrow> wfScene (removeEnvironmentObject newIds s i)"
  by (auto simp: wfScene_def removeEnvironmentObject_def liveWf_delete_Some liveWf_delete_None
      split: option.splits)

lemma wf_loadEnvironmentModel: "wfScene s \<Longrightarrow> wfScene (loadEnvironmentModel e s)"
  by (auto simp: wfScene_def loadEnvironmentModel_def Let_def liveWf_add
      intro: liveWf_mono [where n = "nextHandle s" and n' = "Suc (nextHandle s)"])

lemma wf_syncEnvironment: "wfScene s \<Longrightarrow> wfScene (syncEnvironment s e)"
proof (cases "map_of (envObjectMap s) (env_id e)")
  case None
  assume "wfScene s"
  with None show ?thesis by (simp add: syncEnvironment_def wf_loadEnvironmentModel)
next
  case (Some anchor)
  assume "wfScene s"
  with Some show ?thesis by (simp add: syncEnvironment_def wfScene_def)
qed

lemma wf_foldl:
  assumes "\<And>s x. P s \<Longrightarrow> P (f s x)" and "P s"
  shows "P (foldl f s xs)"
  using assms(2) by (induction xs arbitrary: s) (simp_all add: assms(1))

lemma wf_syncEnvironments: "wfScene s \<Longrightarrow> wfScene (syncEnvironments envs s)"
  unfolding syncEnvironments_def
  by (intro wf_foldl [where P = wfScene] wf_syncEnvironment wf_removeEnvironmentObject)

lemma wf_removeSceneObjectGroup: "wfScene s \<Longrightarrow> wfScene (removeSceneObjectGroup newIds s i)"
  by (auto simp: wfScene_def removeSceneObjectGroup_def liveWf_delete_Some liveWf_delete_None
      split: option.splits)

lemma wf_loadSceneObject: "wfScene s \<Longrightarrow> wfScene (loadSceneObject e s)"
  by (auto simp: wfScene_def loadSceneObject_def Let_def liveWf_add
      intro: liveWf_mono [where n = "nextHandle s" and n' = "Suc (nextHandle s)"])

lemma wf_syncSceneObject: "wfScene s \<Longrightarrow> wfScene (syncSceneObject s e)"
proof (cases "map_of (sceneObjectMap s) (so_id e)")
  case None
  assume "wfScene s"
  with None show ?thesis by (simp add: syncSceneObject_def wf_loadSceneObject)
next
  case (Some g)
  assume w: "wfScene s"
  show ?thesis
  proof (cases "obj_url (nodes s g) \<noteq> Some (so_url e)")
    case True
    have "wfScene (s\<lparr>sceneObjectsGroup := remove1 g (sceneObjectsGroup s),
                  sceneObjectMap := AList.delete (so_id e) (sceneObjectMap s)\<rparr>)"
      using Some w by (simp add: wfScene_def liveWf_delete_Some)
    then show ?thesis using Some True by (simp add: syncSceneObject_def wf_loadSceneObject)
  next
    case False
    then show ?thesis using Some w by (simp add: syncSceneObject_def wfScene_def)
  qed
qed

lemma wf_syncSceneObjects: "wfScene s \<Longrightarrow> wfScene (syncSceneObjects objs s)"
  unfolding syncSceneObjects_def
  by (intro wf_foldl [where P = wfScene] wf_syncSceneObject wf_removeSceneObjectGroup)

lemma wf_removeCarGroup: "wfScene s \<Longrightarrow> wfScene (removeCarGroup cars s i)"
  by (auto simp: wfScene_def removeCarGroup_def Let_def liveWf_delete_Some split: option.splits)

lemma wf_materials: "wfScene (s\<lparr>materialsMap := m\<rparr>) = wfScene s"
  by (simp add: wfScene_def)

lemma wf_getOrCreateMaterials: "wfScene s \<Longrightarrow> wfScene (snd (getOrCreateMaterials i s))"
  by (simp add: getOrCreateMaterials_def wf_materials split: option.splits)

lemma wf_createCarGroup: "wfScene s \<Longrightarrow> wfScene (fst (createCarGroup c car s))"
  by (auto simp: wfScene_def createCarGroup_def Let_def liveWf_add buildProceduralCar_def
      getOrCreateMaterials_def analyzeCarStructure_def
      split: option.splits prod.splits
      intro: liveWf_mono [where n = "nextHandle s" and n' = "Suc (nextHandle s)"])

lemma wf_syncCar: "wfScene s \<Longrightarrow> wfScene (fst (syncCar c s car))"
proof -
  assume w: "wfScene s"
  obtain mats s1 where g: "getOrCreateMaterials (car_id car) s = (mats, s1)"
    by (cases "getOrCreateMaterials (car_id car) s")
  with wf_getOrCreateMaterials [OF w, of "car_id car"] have "wfScene s1" by simp
  then have "wfScene (s1\<lparr>materialsMap := m\<rparr>)" for m by (simp add: wf_materials)
  then show ?thesis using g
    by (auto simp: syncCar_def Let_def wf_createCarGroup)
qed

lemma forEachThrowing_inv:
  assumes "\<And>s x. P s \<Longrightarrow> P (fst (body s x))" and "P s"
  shows "P (fst (forEachThrowing body xs s))"
  using assms(2)
proof (induction xs arbitrary: s)
  case Nil
  then show ?case by simp
next
  case (Cons x xs)
  obtain s' e where r: "body s x = (s', e)" by (cases "body s x")
  with assms(1) [OF Cons.prems, of x] have p: "P s'" by simp
  show ?case using r p Cons.IH [OF p] by (cases e) simp_all
qed

lemma wf_attach: "wfScene (attachToActiveGroup a g s) = wfScene s"
  by (simp add: attachToActiveGroup_def analyzeCarStructure_def Let_def wfScene_def)

lemma wf_syncFleet: "wfScene s \<Longrightarrow> wfScene (fst (syncFleet c cars s))"
proof -
  assume w: "wfScene s"
  define s1 where "s1 = foldl (removeCarGroup cars) s (map fst (carMap s))"
  have w1: "wfScene s1" unfolding s1_def
    by (intro wf_foldl [where P = wfScene] wf_removeCarGroup w)
  have w2: "wfScene (fst (forEachThrowing (syncCar c) cars s1))"
    by (intro forEachThrowing_inv [where P = wfScene] wf_syncCar w1)
  obtain s2 e where r: "forEachThrowing (syncCar c) cars s1 = (s2, e)"
    by (cases "forEachThrowing (syncCar c) cars s1")
  with w2 have "wfScene s2" by simp
  then show ?thesis using r
    by (auto simp: syncFleet_def s1_def [symmetric] wf_attach split: option.splits)
qed

lemma wf_loads:
  "wfScene (storeDecrementLoading s) = wfScene s"
  "wfScene (attachModel g u s) = wfScene s"
  "wfScene (s\<lparr>pendingLoads := p\<rparr>) = wfScene s"
  "wfScene (analyzeCarStructure g s) = wfScene s"
  by (simp_all add: wfScene_def storeDecrementLoading_def attachModel_def analyzeCarStructure_def)

lemma wf_loadCompleted: "wfScene s \<Longrightarrow> wfScene (fst (loadCompleted c req s))"
  by (cases req)
     (auto simp: loadCompleted_def Let_def environmentLoaded_def sceneObjectLoaded_def
        carLoaded_def wf_loads getOrCreateMaterials_def wf_materials
        split: option.splits prod.splits)

lemma wf_loadFailed: "wfScene s \<Longrightarrow> wfScene (loadFailed req s)"
  by (simp add: loadFailed_def wf_loads)

lemma wf_initial: "wfScene initialScene"
  by (simp add: wfScene_def initialScene_def liveWf_def)

lemma wf_handle:
  assumes "wfScene s" and "map_of (sceneObjectMap s) i = Some h"
  shows "h < nextHandle s" and "h \<in> set (sceneObjectsGroup s)"
    and "\<And>j. map_of (sceneObjectMap s) j = Some h \<Longrightarrow> j = i"
  using assms unfolding wfScene_def liveWf_def by blast+

lemma syncSceneObject_keep:
  assumes w: "wfScene s" and m: "map_of (sceneObjectMap s) i = Some h"
    and u: "obj_url (nodes s h) = Some u" and e: "so_id e = i \<longrightarrow> so_url e = u"
  shows "map_of (sceneObjectMap (syncSceneObject s e)) i = Some h \<and>
         nodes (syncSceneObject s e) h =
           (if so_id e = i then applySceneObjectTransform e (nodes s h) else nodes s h)"
proof (cases "so_id e = i")
  case True
  with m u e show ?thesis by (simp add: syncSceneObject_def)
next
  case False
  note hn = wf_handle(1) [OF w m]
  show ?thesis
  proof (cases "map_of (sceneObjectMap s) (so_id e)")
    case None
    with False m hn show ?thesis
      by (simp add: syncSceneObject_def loadSceneObject_def Let_def update_conv')
  next
    case (Some g)
    with wf_handle(3) [OF w m, of "so_id e"] False have gh: "g \<noteq> h" by auto
    with False m hn Some show ?thesis
      by (simp add: syncSceneObject_def loadSceneObject_def Let_def update_conv' delete_conv')
  qed
qed

lemma soTransforms_url: "obj_url (soTransforms i objs n) = obj_url n"
  unfolding soTransforms_def
  by (induction objs arbitrary: n) (simp_all add: applySceneObjectTransform_def)

lemma so_loop_keep:
  assumes "wfScene s" and "map_of (sceneObjectMap s) i = Some h"
    and "obj_url (nodes s h) = Some u" and "\<forall>e \<in> set objs. so_id e = i \<longrightarrow> so_url e = u"
  shows "map_of (sceneObjectMap (foldl syncSceneObject s objs)) i = Some h \<and>
         nodes (foldl syncSceneObject s objs) h = soTransforms i objs (nodes s h)"
  using assms
proof (induction objs arbitrary: s)
  case Nil
  then show ?case by (simp add: soTransforms_def)
next
  case (Cons e objs)
  let ?s1 = "syncSceneObject s e"
  have e: "so_id e = i \<longrightarrow> so_url e = u" using Cons.prems(4) by simp
  note k = syncSceneObject_keep [OF Cons.prems(1) Cons.prems(2) Cons.prems(3) e]
  have w1: "wfScene ?s1" by (rule wf_syncSceneObject [OF Cons.prems(1)])
  have m1: "map_of (sceneObjectMap ?s1) i = Some h" using k by simp
  have u1: "obj_url (nodes ?s1 h) = Some u"
    using k Cons.prems(3) by (simp add: applySceneObjectTransform_def)
  have r: "\<forall>e \<in> set objs. so_id e = i \<longrightarrow> so_url e = u" using Cons.prems(4) by simp
  from Cons.IH [OF w1 m1 u1 r] k show ?case by (simp add: soTransforms_def)
qed

lemma so_remove_keep:
  assumes "i \<in> set newIds"
  shows "map_of (sceneObjectMap (foldl (removeSceneObjectGroup newIds) s ks)) i =
           map_of (sceneObjectMap s) i \<and>
         nodes (foldl (removeSceneObjectGroup newIds) s ks) = nodes s"
proof (induction ks arbitrary: s)
  case Nil
  then show ?case by simp
next
  case (Cons k ks)
  have "map_of (sceneObjectMap (removeSceneObjectGroup newIds s k)) i = map_of (sceneObjectMap s) i \<and>
        nodes (removeSceneObjectGroup newIds s k) = nodes s"
    using assms by (auto simp: removeSceneObjectGroup_def delete_conv')
  with Cons show ?case by simp
qed

lemma syncSceneObjects_keep:
  assumes w: "wfScene s" and m: "map_of (sceneObjectMap s) i = Some h"
    and u: "obj_url (nodes s h) = Some u"
    and e: "\<forall>e \<in> set objs. so_id e = i \<longrightarrow> so_url e = u"
    and i: "i \<in> so_id ` set objs"
  shows "map_of (sceneObjectMap (syncSceneObjects objs s)) i = Some h \<and>
         nodes (syncSceneObjects objs s) h = soTransforms i objs (nodes s h)"
proof -
  define s1 where "s1 = foldl (removeSceneObjectGroup (map so_id objs)) s (map fst (sceneObjectMap s))"
  have w1: "wfScene s1" unfolding s1_def
    by (intro wf_foldl [where P = wfScene] wf_removeSceneObjectGroup w)
  have i': "i \<in> set (map so_id objs)" using i by simp
  have k: "map_of (sceneObjectMap s1) i = map_of (sceneObjectMap s) i" "nodes s1 = nodes s"
    using so_remove_keep [OF i', of s "map fst (sceneObjectMap s)"] unfolding s1_def by simp_all
  have m1: "map_of (sceneObjectMap s1) i = Some h" using k m by simp
  have u1: "obj_url (nodes s1 h) = Some u" using k u by simp
  from so_loop_keep [OF w1 m1 u1 e] k show ?thesis
    by (simp add: syncSceneObjects_def s1_def)
qed

lemma syncSceneObject_record:
  assumes "so_id e = i" and "so_url e = u"
  shows "\<exists>h. map_of (sceneObjectMap (syncSceneObject s e)) i = Some h \<and>
             obj_url (nodes (syncSceneObject s e) h) = Some u"
  using assms
  by (auto simp: syncSceneObject_def loadSceneObject_def Let_def update_conv'
      applySceneObjectTransform_def newGroup_def split: option.splits)

lemma syncSceneObjects_record:
  assumes w: "wfScene s"
    and e: "\<forall>e \<in> set objs. so_id e = i \<longrightarrow> so_url e = u"
    and i: "i \<in> so_id ` set objs"
  shows "\<exists>h. map_of (sceneObjectMap (syncSceneObjects objs s)) i = Some h \<and>
             obj_url (nodes (syncSceneObjects objs s) h) = Some u"
proof -
  define s1 where "s1 = foldl (removeSceneObjectGroup (map so_id objs)) s (map fst (sceneObjectMap s))"
  have w1: "wfScene s1" unfolding s1_def
    by (intro wf_foldl [where P = wfScene] wf_removeSceneObjectGroup w)
  from i obtain x where x: "x \<in> set objs" "so_id x = i" by auto
  then obtain pre post where sp: "objs = pre @ x # post" by (meson split_list)
  define s2 where "s2 = foldl syncSceneObject s1 pre"
  have w2: "wfScene s2" unfolding s2_def
    by (intro wf_foldl [where P = wfScene] wf_syncSceneObject w1)
  have xu: "so_url x = u" using e x by simp
  from syncSceneObject_record [OF x(2) xu, of s2]
  obtain h where h: "map_of (sceneObjectMap (syncSceneObject s2 x)) i = Some h"
    "obj_url (nodes (syncSceneObject s2 x) h) = Some u" by blast
  have w3: "wfScene (syncSceneObject s2 x)" by (rule wf_syncSceneObject [OF w2])
  have r: "\<forall>e \<in> set post. so_id e = i \<longrightarrow> so_url e = u" using e sp by simp
  from so_loop_keep [OF w3 h(1) h(2) r]
  have "map_of (sceneObjectMap (foldl syncSceneObject (syncSceneObject s2 x) post)) i = Some h"
    "obj_url (nodes (foldl syncSceneObject (syncSceneObject s2 x) post) h) = Some u"
    using h(2) by (simp_all add: soTransforms_url)
  moreover have "syncSceneObjects objs s = foldl syncSceneObject (syncSceneObject s2 x) post"
    by (simp add: syncSceneObjects_def sp s1_def s2_def)
  ultimately show ?thesis by auto
qed

lemma wf_env_handle:
  assumes "wfScene s" and "map_of (envObjectMap s) i = Some h"
  shows "h < nextHandle s" and "h \<in> set (wallModelGroup s)"
    and "\<And>j. map_of (envObjectMap s) j = Some h \<Longrightarrow> j = i"
  using assms unfolding wfScene_def liveWf_def by blast+

lemma syncEnvironment_keep:
  assumes w: "wfScene s" and m: "map_of (envObjectMap s) i = Some h"
  shows "map_of (envObjectMap (syncEnvironment s e)) i = Some h \<and>
         nodes (syncEnvironment s e) h =
           (if env_id e = i then applyEnvironmentTransform e (nodes s h) else nodes s h)"
proof (cases "env_id e = i")
  case True
  with m show ?thesis by (simp add: syncEnvironment_def)
next
  case False
  note hn = wf_env_handle(1) [OF w m]
  show ?thesis
  proof (cases "map_of (envObjectMap s) (env_id e)")
    case None
    with False m hn show ?thesis
      by (simp add: syncEnvironment_def loadEnvironmentModel_def Let_def update_conv')
  next
    case (Some g)
    with wf_env_handle(3) [OF w m, of "env_id e"] False have gh: "g \<noteq> h" by auto
    with False m hn Some show ?thesis
      by (simp add: syncEnvironment_def)
  qed
qed

lemma env_loop_keep:
  assumes "wfScene s" and "map_of (envObjectMap s) i = Some h"
  shows "map_of (envObjectMap (foldl syncEnvironment s envs)) i = Some h \<and>
         nodes (foldl syncEnvironment s envs) h = envTransforms i envs (nodes s h)"
  using assms
proof (induction envs arbitrary: s)
  case Nil
  then show ?case by (simp add: envTransforms_def)
next
  case (Cons e envs)
  let ?s1 = "syncEnvironment s e"
  note k = syncEnvironment_keep [OF Cons.prems(1) Cons.prems(2), of e]
  have w1: "wfScene ?s1" by (rule wf_syncEnvironment [OF Cons.prems(1)])
  have m1: "map_of (envObjectMap ?s1) i = Some h" using k by simp
  from Cons.IH [OF w1 m1] k show ?case by (simp add: envTransforms_def)
qed

lemma env_remove_keep:
  assumes "i \<in> set newIds"
  shows "map_of (envObjectMap (foldl (removeEnvironmentObject newIds) s ks)) i =
           map_of (envObjectMap s) i \<and>
         nodes (foldl (removeEnvironmentObject newIds) s ks) = nodes s \<and>
         pendingLoads (foldl (removeEnvironmentObject newIds) s ks) = pendingLoads s"
proof (induction ks arbitrary: s)
  case Nil
  then show ?case by simp
next
  case (Cons k ks)
  have "map_of (envObjectMap (removeEnvironmentObject newIds s k)) i = map_of (envObjectMap s) i \<and>
        nodes (removeEnvironmentObject newIds s k) = nodes s \<and>
        pendingLoads (removeEnvironmentObject newIds s k) = pendingLoads s"
    using assms by (auto simp: removeEnvironmentObject_def delete_conv')
  with Cons show ?case by simp
qed

lemma syncEnvironments_keep:
  assumes w: "wfScene s" and m: "map_of (envObjectMap s) i = Some h"
    and i: "i \<in> env_id ` set envs"
  shows "map_of (envObjectMap (syncEnvironments envs s)) i = Some h \<and>
         nodes (syncEnvironments envs s) h = envTransforms i envs (nodes s h)"
proof -
  define s1 where "s1 = foldl (removeEnvironmentObject (map env_id envs)) s (map fst (envObjectMap s))"
  have w1: "wfScene s1" unfolding s1_def
    by (intro wf_foldl [where P = wfScene] wf_removeEnvironmentObject w)
  have i': "i \<in> set (map env_id envs)" using i by simp
  have k: "map_of (envObjectMap s1) i = map_of (envObjectMap s) i" "nodes s1 = nodes s"
    using env_remove_keep [OF i', of s "map fst (envObjectMap s)"] unfolding s1_def by simp_all
  have m1: "map_of (envObjectMap s1) i = Some h" using k m by simp
  from env_loop_keep [OF w1 m1] k show ?thesis
    by (simp add: syncEnvironments_def s1_def)
qed

lemma wf_car_handle:
  assumes "wfScene s" and "map_of (carMap s) i = Some h"
  shows "h < nextHandle s" and "h \<in> set (fleetGroup s)"
    and "\<And>j. map_of (carMap s) j = Some h \<Longrightarrow> j = i"
  using assms unfolding wfScene_def liveWf_def by blast+

lemma removeCarGroup_nodes: "nodes (removeCarGroup cars s k) = nodes s"
  by (simp add: removeCarGroup_def Let_def split: option.splits)

lemma removeCarGroup_keep:
  assumes "map_of (carMap s) i = Some h"
    and "find (\<lambda>c. car_id c = i) cars = Some car"
    and "obj_url (nodes s h) = car_modelUrl car"
  shows "map_of (carMap (removeCarGroup cars s k)) i = Some h"
  using assms
  by (cases "k = i") (auto simp: removeCarGroup_def Let_def delete_conv' split: option.splits)

lemma fleet_remove_keep:
  assumes "map_of (carMap s) i = Some h"
    and "find (\<lambda>c. car_id c = i) cars = Some car"
    and "obj_url (nodes s h) = car_modelUrl car"
  shows "map_of (carMap (foldl (removeCarGroup cars) s ks)) i = Some h \<and>
         nodes (foldl (removeCarGroup cars) s ks) = nodes s"
  using assms
proof (induction ks arbitrary: s)
  case Nil
  then show ?case by simp
next
  case (Cons k ks)
  let ?s1 = "removeCarGroup cars s k"
  have m1: "map_of (carMap ?s1) i = Some h" by (rule removeCarGroup_keep [OF Cons.prems])
  have n1: "nodes ?s1 = nodes s" by (rule removeCarGroup_nodes)
  have u1: "obj_url (nodes ?s1 h) = car_modelUrl car" using n1 Cons.prems(3) by simp
  from Cons.IH [OF m1 Cons.prems(2) u1] n1 show ?case by simp
qed

lemma syncCar_keep:
  assumes w: "wfScene s" and m: "map_of (carMap s) i = Some h"
  shows "map_of (carMap (fst (syncCar c s car))) i = Some h \<and>
         nodes (fst (syncCar c s car)) h = nodes s h"
proof -
  note hn = wf_car_handle(1) [OF w m]
  show ?thesis
  proof (cases "map_of (carMap s) (car_id car)")
    case None
    with m have ne: "car_id car \<noteq> i" by auto
    with None m hn show ?thesis
      by (auto simp: syncCar_def Let_def getOrCreateMaterials_def createCarGroup_def
          buildProceduralCar_def analyzeCarStructure_def update_conv'
          split: option.splits prod.splits)
  next
    case (Some g)
    with m show ?thesis
      by (auto simp: syncCar_def Let_def getOrCreateMaterials_def split: option.splits)
  qed
qed

lemma fleet_loop_keep:
  assumes "wfScene s" and "map_of (carMap s) i = Some h"
  shows "map_of (carMap (foldl (\<lambda>s car. fst (syncCar c s car)) s cars)) i = Some h \<and>
         nodes (foldl (\<lambda>s car. fst (syncCar c s car)) s cars) h = nodes s h"
  using assms
proof (induction cars arbitrary: s)
  case Nil
  then show ?case by simp
next
  case (Cons car cars)
  let ?s1 = "fst (syncCar c s car)"
  note k = syncCar_keep [OF Cons.prems, of c car]
  have w1: "wfScene ?s1" by (rule wf_syncCar [OF Cons.prems(1)])
  have m1: "map_of (carMap ?s1) i = Some h" using k by simp
  from Cons.IH [OF w1 m1] k show ?case by simp
qed

lemma find_Some_nonempty: "find P xs = Some x \<Longrightarrow> xs \<noteq> []"
  by (cases xs) simp_all

lemma syncFleet_result:
  assumes "fleet c \<noteq> []"
  shows "carMap (fst (syncFleet c (fleet c) s)) =
           carMap (foldl (\<lambda>s car. fst (syncCar c s car))
             (foldl (removeCarGroup (fleet c)) s (map fst (carMap s))) (fleet c)) \<and>
         nodes (fst (syncFleet c (fleet c) s)) =
           nodes (foldl (\<lambda>s car. fst (syncCar c s car))
             (foldl (removeCarGroup (fleet c)) s (map fst (carMap s))) (fleet c))"
proof -
  from assms have a: "activeCar c \<noteq> None" by (simp add: activeCar_None_iff)
  show ?thesis using a
    by (auto simp: syncFleet_def forEach_syncCar [OF a] attachToActiveGroup_def
        analyzeCarStructure_def Let_def split: option.splits)
qed

lemma syncFleet_keep:
  assumes w: "wfScene s" and m: "map_of (carMap s) i = Some h"
    and f: "find (\<lambda>c. car_id c = i) (fleet c) = Some car"
    and u: "obj_url (nodes s h) = car_modelUrl car"
  shows "map_of (carMap (fst (syncFleet c (fleet c) s))) i = Some h \<and>
         nodes (fst (syncFleet c (fleet c) s)) h = nodes s h"
proof -
  define s1 where "s1 = foldl (removeCarGroup (fleet c)) s (map fst (carMap s))"
  have w1: "wfScene s1" unfolding s1_def
    by (intro wf_foldl [where P = wfScene] wf_removeCarGroup w)
  have k: "map_of (carMap s1) i = Some h" "nodes s1 = nodes s"
    using fleet_remove_keep [OF m f u, of "map fst (carMap s)"] unfolding s1_def by simp_all
  have ne: "fleet c \<noteq> []" using f by (rule find_Some_nonempty)
  from fleet_loop_keep [OF w1 k(1), of c "fleet c"] k(2) syncFleet_result [OF ne, of s]
  show ?thesis by (simp add: s1_def)
qed

lemma removeCarGroup_mono:
  "map_of (carMap (removeCarGroup cars s k)) i = Some h \<Longrightarrow> map_of (carMap s) i = Some h"
  by (auto simp: removeCarGroup_def Let_def delete_conv' split: option.splits if_splits)

lemma fleet_remove_mono:
  "map_of (carMap (foldl (removeCarGroup cars) s ks)) i = Some h \<Longrightarrow> map_of (carMap s) i = Some h"
proof (induction ks arbitrary: s)
  case Nil
  then show ?case by simp
next
  case (Cons k ks)
  then have "map_of (carMap (removeCarGroup cars s k)) i = Some h" by simp
  then show ?case by (rule removeCarGroup_mono)
qed

lemma fleet_remove_nodes: "nodes (foldl (removeCarGroup cars) s ks) = nodes s"
  by (induction ks arbitrary: s) (simp_all add: removeCarGroup_nodes)

lemma removeCarGroup_record:
  assumes "find (\<lambda>c. car_id c = i) cars = Some car"
    and "map_of (carMap (removeCarGroup cars s i)) i = Some h"
  shows "obj_url (nodes s h) = car_modelUrl car"
  using assms
  by (auto simp: removeCarGroup_def Let_def delete_conv' split: option.splits if_splits)

lemma fleet_remove_record:
  assumes f: "find (\<lambda>c. car_id c = i) cars = Some car"
    and "i \<in> set ks"
    and "map_of (carMap (foldl (removeCarGroup cars) s ks)) i = Some h"
  shows "obj_url (nodes s h) = car_modelUrl car"
  using assms(2,3)
proof (induction ks arbitrary: s)
  case Nil
  then show ?case by simp
next
  case (Cons k ks)
  let ?s1 = "removeCarGroup cars s k"
  from Cons.prems(2) have fin: "map_of (carMap (foldl (removeCarGroup cars) ?s1 ks)) i = Some h"
    by simp
  show ?case
  proof (cases "k = i")
    case True
    from fleet_remove_mono [OF fin] have "map_of (carMap ?s1) i = Some h" .
    with True removeCarGroup_record [OF f, of s h] show ?thesis by simp
  next
    case False
    with Cons.prems(1) have "i \<in> set ks" by simp
    from Cons.IH [OF this fin] show ?thesis by (simp add: removeCarGroup_nodes)
  qed
qed

lemma find_split:
  "find P xs = Some x \<Longrightarrow> \<exists>pre post. xs = pre @ x # post \<and> P x \<and> (\<forall>y \<in> set pre. \<not> P y)"
proof (induction xs)
  case Nil
  then show ?case by simp
next
  case (Cons a xs)
  show ?case
  proof (cases "P a")
    case True
    with Cons.prems have "a = x" by simp
    with True have "a # xs = [] @ x # xs \<and> P x \<and> (\<forall>y \<in> set []. \<not> P y)" by simp
    then show ?thesis by blast
  next
    case False
    with Cons.prems have "find P xs = Some x" by simp
    from Cons.IH [OF this] obtain pre post
      where "xs = pre @ x # post" "P x" "\<forall>y \<in> set pre. \<not> P y" by blast
    with False have "a # xs = (a # pre) @ x # post \<and> P x \<and> (\<forall>y \<in> set (a # pre). \<not> P y)"
      by simp
    then show ?thesis by blast
  qed
qed

lemma getOrCreateMaterials_frame:
  "carMap (snd (getOrCreateMaterials k s)) = carMap s"
  "nodes (snd (getOrCreateMaterials k s)) = nodes s"
  "nextHandle (snd (getOrCreateMaterials k s)) = nextHandle s"
  by (simp_all add: getOrCreateMaterials_def split: option.splits)

lemma syncCar_has:
  assumes "map_of (carMap s) (car_id car) = Some g"
  shows "carMap (fst (syncCar c s car)) = carMap s \<and> nodes (fst (syncCar c s car)) = nodes s"
proof -
  obtain mats s1 where g: "getOrCreateMaterials (car_id car) s = (mats, s1)"
    by (cases "getOrCreateMaterials (car_id car) s")
  with getOrCreateMaterials_frame [of "car_id car" s]
  have "carMap s1 = carMap s" "nodes s1 = nodes s" by simp_all
  with g assms show ?thesis by (simp add: syncCar_def Let_def)
qed

lemma createCarGroup_effect:
  "carMap (fst (createCarGroup c car s)) = AList.update (car_id car) (nextHandle s) (carMap s) \<and>
   (\<forall>h. h \<noteq> nextHandle s \<longrightarrow> nodes (fst (createCarGroup c car s)) h = nodes s h) \<and>
   obj_url (nodes (fst (createCarGroup c car s)) (nextHandle s)) = car_modelUrl car"
proof (cases "truthy (car_modelUrl car)")
  case True
  then show ?thesis by (simp add: createCarGroup_def Let_def)
next
  case False
  have b: "carMap (buildProceduralCar g car t) = carMap t \<and>
           (\<forall>h. h \<noteq> g \<longrightarrow> nodes (buildProceduralCar g car t) h = nodes t h) \<and>
           obj_url (nodes (buildProceduralCar g car t) g) = obj_url (nodes t g)" for g t
    by (simp add: buildProceduralCar_def getOrCreateMaterials_def split: option.splits)
  show ?thesis
  proof (cases "activeCar c")
    case None
    with False b show ?thesis by (simp add: createCarGroup_def Let_def)
  next
    case (Some a)
    with False b show ?thesis
      by (simp add: createCarGroup_def Let_def analyzeCarStructure_def)
  qed
qed

lemma syncCar_new:
  assumes "map_of (carMap s) (car_id car) = None"
  shows "carMap (fst (syncCar c s car)) = AList.update (car_id car) (nextHandle s) (carMap s) \<and>
         (\<forall>h. h \<noteq> nextHandle s \<longrightarrow> nodes (fst (syncCar c s car)) h = nodes s h) \<and>
         obj_url (nodes (fst (syncCar c s car)) (nextHandle s)) = car_modelUrl car"
proof -
  obtain mats s1 where g: "getOrCreateMaterials (car_id car) s = (mats, s1)"
    by (cases "getOrCreateMaterials (car_id car) s")
  with getOrCreateMaterials_frame [of "car_id car" s]
  have fr: "carMap s1 = carMap s" "nodes s1 = nodes s" "nextHandle s1 = nextHandle s" by simp_all
  define s2 where "s2 = s1\<lparr>materialsMap := AList.update (car_id car)
      (mats\<lparr>paint_color := car_color car, paint_metalness := car_metalness car,
            paint_roughness := car_roughness car\<rparr>) (materialsMap s1)\<rparr>"
  have fr2: "carMap s2 = carMap s" "nodes s2 = nodes s" "nextHandle s2 = nextHandle s"
    by (simp_all add: s2_def fr)
  have "syncCar c s car = createCarGroup c car s2"
    using g assms fr by (simp add: syncCar_def Let_def s2_def)
  with createCarGroup_effect [of c car s2] fr2 show ?thesis by simp
qed

lemma syncCar_other:
  assumes "car_id car \<noteq> i"
  shows "map_of (carMap (fst (syncCar c s car))) i = map_of (carMap s) i"
proof (cases "map_of (carMap s) (car_id car)")
  case None
  from syncCar_new [OF None, of c] assms show ?thesis by (simp add: update_conv')
next
  case (Some g)
  from syncCar_has [OF Some, of c] show ?thesis by simp
qed

lemma fleet_loop_other:
  assumes "wfScene s" and "\<forall>y \<in> set cars. car_id y \<noteq> i"
  shows "map_of (carMap (foldl (\<lambda>s car. fst (syncCar c s car)) s cars)) i = map_of (carMap s) i \<and>
         (\<forall>h. map_of (carMap s) i = Some h \<longrightarrow>
            nodes (foldl (\<lambda>s car. fst (syncCar c s car)) s cars) h = nodes s h)"
proof (cases "map_of (carMap s) i")
  case (Some h)
  with fleet_loop_keep [OF assms(1) Some, of c cars] show ?thesis by simp
next
  case None
  have "map_of (carMap (foldl (\<lambda>s car. fst (syncCar c s car)) s cars)) i = map_of (carMap s) i"
    using assms(2)
  proof (induction cars arbitrary: s)
    case Nil
    then show ?case by simp
  next
    case (Cons car cars)
    then show ?case by (simp add: syncCar_other)
  qed
  with None show ?thesis by simp
qed

lemma syncCar_record:
  "\<exists>h. map_of (carMap (fst (syncCar c s car))) (car_id car) = Some h \<and>
       (map_of (carMap s) (car_id car) = None \<longrightarrow>
          obj_url (nodes (fst (syncCar c s car)) h) = car_modelUrl car) \<and>
       (\<forall>g. map_of (carMap s) (car_id car) = Some g \<longrightarrow>
          h = g \<and> nodes (fst (syncCar c s car)) g = nodes s g)"
proof (cases "map_of (carMap s) (car_id car)")
  case None
  from syncCar_new [OF None, of c] None show ?thesis by (simp add: update_conv')
next
  case (Some g)
  from syncCar_has [OF Some, of c] Some show ?thesis by simp
qed

lemma syncFleet_record:
  assumes w: "wfScene s"
    and f: "find (\<lambda>c. car_id c = i) (fleet c) = Some car"
  shows "\<exists>h. map_of (carMap (fst (syncFleet c (fleet c) s))) i = Some h \<and>
             obj_url (nodes (fst (syncFleet c (fleet c) s)) h) = car_modelUrl car"
proof -
  define s1 where "s1 = foldl (removeCarGroup (fleet c)) s (map fst (carMap s))"
  have w1: "wfScene s1" unfolding s1_def
    by (intro wf_foldl [where P = wfScene] wf_removeCarGroup w)
  have rec1: "obj_url (nodes s1 h) = car_modelUrl car" if h: "map_of (carMap s1) i = Some h" for h
  proof -
    from h have "map_of (carMap s) i = Some h" unfolding s1_def by (rule fleet_remove_mono)
    then have "(i, h) \<in> set (carMap s)" by (rule map_of_SomeD)
    then have "i \<in> set (map fst (carMap s))" by force
    from fleet_remove_record [OF f this h [unfolded s1_def]]
    show ?thesis by (simp add: s1_def fleet_remove_nodes)
  qed
  from find_split [OF f] obtain pre post
    where sp: "fleet c = pre @ car # post" and ci: "car_id car = i"
      and pre: "\<forall>y \<in> set pre. car_id y \<noteq> i" by blast
  define s2 where "s2 = foldl (\<lambda>s car. fst (syncCar c s car)) s1 pre"
  have w2: "wfScene s2" unfolding s2_def
    by (intro wf_foldl [where P = wfScene] wf_syncCar w1)
  have o1: "map_of (carMap s2) i = map_of (carMap s1) i"
    and o2: "\<And>g. map_of (carMap s1) i = Some g \<Longrightarrow> nodes s2 g = nodes s1 g"
    using fleet_loop_other [OF w1 pre, of c] unfolding s2_def by blast+
  define s3 where "s3 = fst (syncCar c s2 car)"
  have w3: "wfScene s3" unfolding s3_def by (rule wf_syncCar [OF w2])
  have "\<exists>h. map_of (carMap s3) i = Some h \<and>
       (map_of (carMap s2) i = None \<longrightarrow> obj_url (nodes s3 h) = car_modelUrl car) \<and>
       (\<forall>g. map_of (carMap s2) i = Some g \<longrightarrow> h = g \<and> nodes s3 g = nodes s2 g)"
    using syncCar_record [of c s2 car] unfolding s3_def ci .
  then obtain h
    where hh: "map_of (carMap s3) i = Some h \<and>
       (map_of (carMap s2) i = None \<longrightarrow> obj_url (nodes s3 h) = car_modelUrl car) \<and>
       (\<forall>g. map_of (carMap s2) i = Some g \<longrightarrow> h = g \<and> nodes s3 g = nodes s2 g)" ..
  from hh have h: "map_of (carMap s3) i = Some h" by (rule conjunct1)
  from hh have hn: "map_of (carMap s2) i = None \<Longrightarrow> obj_url (nodes s3 h) = car_modelUrl car"
    by simp
  from hh have hs: "\<And>g. map_of (carMap s2) i = Some g \<Longrightarrow> h = g \<and> nodes s3 g = nodes s2 g"
    by simp
  have u3: "obj_url (nodes s3 h) = car_modelUrl car"
  proof (cases "map_of (carMap s2) i")
    case None
    then show ?thesis by (rule hn)
  next
    case (Some g)
    from hs [OF Some] have hg: "h = g" and n3: "nodes s3 g = nodes s2 g" by blast+
    have m1: "map_of (carMap s1) i = Some g" unfolding o1 [symmetric] by (rule Some)
    have "obj_url (nodes s1 g) = car_modelUrl car" by (rule rec1 [OF m1])
    then show ?thesis unfolding hg n3 o2 [OF m1] .
  qed
  note k = fleet_loop_keep [OF w3 h, of c post]
  have ne: "fleet c \<noteq> []" using sp by simp
  have e: "foldl (\<lambda>s car. fst (syncCar c s car)) s1 (fleet c) =
           foldl (\<lambda>s car. fst (syncCar c s car)) s3 post"
    by (simp add: sp s2_def s3_def)
  have r: "carMap (fst (syncFleet c (fleet c) s)) =
             carMap (foldl (\<lambda>s car. fst (syncCar c s car)) s3 post)"
    "nodes (fst (syncFleet c (fleet c) s)) =
             nodes (foldl (\<lambda>s car. fst (syncCar c s car)) s3 post)"
    using syncFleet_result [OF ne, of s] unfolding s1_def [symmetric] e by simp_all
  have "map_of (carMap (fst (syncFleet c (fleet c) s))) i = Some h"
    unfolding r using k by simp
  moreover have "obj_url (nodes (fst (syncFleet c (fleet c) s)) h) = car_modelUrl car"
    unfolding r using k u3 by simp
  ultimately show ?thesis by blast
qed

lemma wf_sceneStep: "wfScene s \<Longrightarrow> wfScene (sceneStep s ev)"
  by (cases ev)
     (simp_all add: wf_syncEnvironments wf_syncSceneObjects wf_syncFleet wf_loadCompleted
        wf_loadFailed)

lemma wf_sceneAfter: "wfScene (sceneAfter events)"
  unfolding sceneAfter_def by (intro wf_foldl [where P = wfScene] wf_sceneStep wf_initial)


lemma extendsLoads_same:
  "pendingLoads s' = pendingLoads s \<Longrightarrow> loadingCount s' = loadingCount s \<Longrightarrow> extendsLoads Q s s'"
  unfolding extendsLoads_def by (intro exI [of _ "[]"]) simp

lemma extendsLoads_one:
  "pendingLoads s' = pendingLoads s @ [r] \<Longrightarrow> loadingCount s' = incrementLoading (loadingCount s) \<Longrightarrow>
   Q r \<Longrightarrow> extendsLoads Q s s'"
  unfolding extendsLoads_def by (intro exI [of _ "[r]"]) (simp add: incrementLoading_def)

lemma extendsLoads_trans:
  assumes "extendsLoads Q s s'" "extendsLoads Q s' s''"
  shows "extendsLoads Q s s''"
proof -
  from assms(1) obtain n1 where n1: "pendingLoads s' = pendingLoads s @ n1"
    "loadingCount s' = loadingCount s + int (length n1)" "\<forall>r \<in> set n1. Q r"
    unfolding extendsLoads_def by blast
  from assms(2) obtain n2 where n2: "pendingLoads s'' = pendingLoads s' @ n2"
    "loadingCount s'' = loadingCount s' + int (length n2)" "\<forall>r \<in> set n2. Q r"
    unfolding extendsLoads_def by blast
  show ?thesis unfolding extendsLoads_def
    using n1 n2 by (intro exI [of _ "n1 @ n2"]) auto
qed

lemma extendsLoads_mono:
  "extendsLoads Q s s' \<Longrightarrow> (\<And>r. Q r \<Longrightarrow> Q' r) \<Longrightarrow> extendsLoads Q' s s'"
  unfolding extendsLoads_def by blast

lemma extendsLoads_started:
  assumes "extendsLoads Q s s'"
  shows "pendingLoads s' = pendingLoads s @ startedLoads s s' \<and>
         loadingCount s' = loadingCount s + int (length (startedLoads s s')) \<and>
         (\<forall>r \<in> set (startedLoads s s'). Q r)"
proof -
  from assms obtain n where n: "pendingLoads s' = pendingLoads s @ n"
    "loadingCount s' = loadingCount s + int (length n)" "\<forall>r \<in> set n. Q r"
    unfolding extendsLoads_def by blast
  have "startedLoads s s' = n" by (simp add: startedLoads_def n(1))
  with n show ?thesis by simp
qed

lemma extendsLoads_foldl:
  assumes "\<And>s x. P s \<Longrightarrow> x \<in> set xs \<Longrightarrow> P (f s x) \<and> extendsLoads Q s (f s x)"
    and "P s"
  shows "extendsLoads Q s (foldl f s xs)"
  using assms
proof (induction xs arbitrary: s)
  case Nil
  then show ?case by (simp add: extendsLoads_same)
next
  case (Cons x xs)
  have st: "P (f s x) \<and> extendsLoads Q s (f s x)" using Cons.prems by simp
  have "extendsLoads Q (f s x) (foldl f (f s x) xs)"
    using Cons.prems(1) st by (intro Cons.IH) simp_all
  with st show ?case by (auto intro: extendsLoads_trans)
qed

lemma so_remove_loads:
  "pendingLoads (foldl (removeSceneObjectGroup ids) s ks) = pendingLoads s \<and>
   loadingCount (foldl (removeSceneObjectGroup ids) s ks) = loadingCount s"
  by (induction ks arbitrary: s) (simp_all add: removeSceneObjectGroup_def)

lemma syncSceneObject_loads:
  "extendsLoads (\<lambda>r. loadId r = so_id e) s (syncSceneObject s e)"
  unfolding extendsLoads_def syncSceneObject_def loadSceneObject_def Let_def
  by (auto split: option.splits simp: incrementLoading_def)

lemma syncSceneObject_kept_loads:
  "map_of (sceneObjectMap s) (so_id e) = Some h \<Longrightarrow> obj_url (nodes s h) = Some (so_url e) \<Longrightarrow>
   pendingLoads (syncSceneObject s e) = pendingLoads s \<and>
   loadingCount (syncSceneObject s e) = loadingCount s"
  by (simp add: syncSceneObject_def)

lemma syncSceneObjects_loads:
  "extendsLoads (\<lambda>r. loadId r \<in> so_id ` set objs) s (syncSceneObjects objs s)"
proof -
  let ?Q = "\<lambda>r. loadId r \<in> so_id ` set objs"
  let ?s1 = "foldl (removeSceneObjectGroup (map so_id objs)) s (map fst (sceneObjectMap s))"
  have a: "extendsLoads ?Q s ?s1" by (intro extendsLoads_same) (simp_all add: so_remove_loads)
  have b: "extendsLoads ?Q ?s1 (foldl syncSceneObject ?s1 objs)"
    by (intro extendsLoads_foldl [where P = "\<lambda>s. True"])
       (auto intro: extendsLoads_mono [OF syncSceneObject_loads])
  from extendsLoads_trans [OF a b] show ?thesis by (simp add: syncSceneObjects_def)
qed

lemma syncSceneObjects_kept_loads:
  assumes w: "wfScene s" and m: "map_of (sceneObjectMap s) i = Some h"
    and u: "obj_url (nodes s h) = Some u"
    and e: "\<forall>e \<in> set objs. so_id e = i \<longrightarrow> so_url e = u"
    and i: "i \<in> so_id ` set objs"
  shows "extendsLoads (\<lambda>r. loadId r \<noteq> i) s (syncSceneObjects objs s)"
proof -
  define s1 where "s1 = foldl (removeSceneObjectGroup (map so_id objs)) s (map fst (sceneObjectMap s))"
  have w1: "wfScene s1" unfolding s1_def
    by (intro wf_foldl [where P = wfScene] wf_removeSceneObjectGroup w)
  have i': "i \<in> set (map so_id objs)" using i by simp
  have k: "map_of (sceneObjectMap s1) i = map_of (sceneObjectMap s) i" "nodes s1 = nodes s"
    using so_remove_keep [OF i', of s "map fst (sceneObjectMap s)"] unfolding s1_def by simp_all
  have a: "extendsLoads (\<lambda>r. loadId r \<noteq> i) s s1" unfolding s1_def
    by (intro extendsLoads_same) (simp_all add: so_remove_loads)
  let ?P = "\<lambda>s. wfScene s \<and> map_of (sceneObjectMap s) i = Some h \<and> obj_url (nodes s h) = Some u"
  have step: "?P (syncSceneObject t x) \<and> extendsLoads (\<lambda>r. loadId r \<noteq> i) t (syncSceneObject t x)"
    if p: "?P t" and x: "x \<in> set objs" for t x
  proof -
    have ex: "so_id x = i \<longrightarrow> so_url x = u" using e x by simp
    from p have pw: "wfScene t" and pm: "map_of (sceneObjectMap t) i = Some h"
      and pu: "obj_url (nodes t h) = Some u" by simp_all
    note kp = syncSceneObject_keep [OF pw pm pu ex]
    have p': "?P (syncSceneObject t x)"
      using kp pu wf_syncSceneObject [OF pw, of x] by (simp add: applySceneObjectTransform_def)
    have l: "extendsLoads (\<lambda>r. loadId r \<noteq> i) t (syncSceneObject t x)"
    proof (cases "so_id x = i")
      case True
      with ex pm pu have "pendingLoads (syncSceneObject t x) = pendingLoads t \<and>
          loadingCount (syncSceneObject t x) = loadingCount t"
        by (intro syncSceneObject_kept_loads) simp_all
      then show ?thesis by (intro extendsLoads_same) simp_all
    next
      case False
      then show ?thesis by (intro extendsLoads_mono [OF syncSceneObject_loads]) simp
    qed
    from p' l show ?thesis by (rule conjI)
  qed
  have p1: "?P s1" using w1 k m u by simp
  have b: "extendsLoads (\<lambda>r. loadId r \<noteq> i) s1 (foldl syncSceneObject s1 objs)"
    by (rule extendsLoads_foldl [where P = ?P, OF step p1])
  from extendsLoads_trans [OF a b] show ?thesis by (simp add: syncSceneObjects_def s1_def)
qed


lemma env_remove_loads:
  "pendingLoads (foldl (removeEnvironmentObject ids) s ks) = pendingLoads s \<and>
   loadingCount (foldl (removeEnvironmentObject ids) s ks) = loadingCount s"
  by (induction ks arbitrary: s) (simp_all add: removeEnvironmentObject_def)

lemma syncEnvironment_loads:
  "extendsLoads (\<lambda>r. loadId r = env_id e) s (syncEnvironment s e)"
  unfolding extendsLoads_def syncEnvironment_def loadEnvironmentModel_def Let_def
  by (auto split: option.splits simp: incrementLoading_def)

lemma syncEnvironment_kept_loads:
  "map_of (envObjectMap s) (env_id e) = Some h \<Longrightarrow>
   pendingLoads (syncEnvironment s e) = pendingLoads s \<and>
   loadingCount (syncEnvironment s e) = loadingCount s"
  by (simp add: syncEnvironment_def)

lemma syncEnvironments_loads:
  "extendsLoads (\<lambda>r. loadId r \<in> env_id ` set envs) s (syncEnvironments envs s)"
proof -
  let ?Q = "\<lambda>r. loadId r \<in> env_id ` set envs"
  let ?s1 = "foldl (removeEnvironmentObject (map env_id envs)) s (map fst (envObjectMap s))"
  have a: "extendsLoads ?Q s ?s1" by (intro extendsLoads_same) (simp_all add: env_remove_loads)
  have b: "extendsLoads ?Q ?s1 (foldl syncEnvironment ?s1 envs)"
    by (intro extendsLoads_foldl [where P = "\<lambda>s. True"])
       (auto intro: extendsLoads_mono [OF syncEnvironment_loads])
  from extendsLoads_trans [OF a b] show ?thesis by (simp add: syncEnvironments_def)
qed

lemma syncEnvironments_kept_loads:
  assumes w: "wfScene s" and m: "map_of (envObjectMap s) i = Some h"
    and i: "i \<in> env_id ` set envs"
  shows "extendsLoads (\<lambda>r. loadId r \<noteq> i) s (syncEnvironments envs s)"
proof -
  define s1 where "s1 = foldl (removeEnvironmentObject (map env_id envs)) s (map fst (envObjectMap s))"
  have w1: "wfScene s1" unfolding s1_def
    by (intro wf_foldl [where P = wfScene] wf_removeEnvironmentObject w)
  have i': "i \<in> set (map env_id envs)" using i by simp
  have k: "map_of (envObjectMap s1) i = map_of (envObjectMap s) i"
    using env_remove_keep [OF i', of s "map fst (envObjectMap s)"] unfolding s1_def by simp
  have a: "extendsLoads (\<lambda>r. loadId r \<noteq> i) s s1" unfolding s1_def
    by (intro extendsLoads_same) (simp_all add: env_remove_loads)
  let ?P = "\<lambda>s. wfScene s \<and> map_of (envObjectMap s) i = Some h"
  have step: "?P (syncEnvironment t x) \<and> extendsLoads (\<lambda>r. loadId r \<noteq> i) t (syncEnvironment t x)"
    if p: "?P t" and x: "x \<in> set envs" for t x
  proof -
    from p have pw: "wfScene t" and pm: "map_of (envObjectMap t) i = Some h" by simp_all
    note kp = syncEnvironment_keep [OF pw pm, of x]
    have p': "?P (syncEnvironment t x)" using kp wf_syncEnvironment [OF pw, of x] by simp
    have l: "extendsLoads (\<lambda>r. loadId r \<noteq> i) t (syncEnvironment t x)"
    proof (cases "env_id x = i")
      case True
      with pm have "pendingLoads (syncEnvironment t x) = pendingLoads t \<and>
          loadingCount (syncEnvironment t x) = loadingCount t"
        by (intro syncEnvironment_kept_loads) simp_all
      then show ?thesis by (intro extendsLoads_same) simp_all
    next
      case False
      then show ?thesis by (intro extendsLoads_mono [OF syncEnvironment_loads]) simp
    qed
    from p' l show ?thesis by (rule conjI)
  qed
  have p1: "?P s1" using w1 k m by simp
  have b: "extendsLoads (\<lambda>r. loadId r \<noteq> i) s1 (foldl syncEnvironment s1 envs)"
    by (rule extendsLoads_foldl [where P = ?P, OF step p1])
  from extendsLoads_trans [OF a b] show ?thesis by (simp add: syncEnvironments_def s1_def)
qed

lemma fleet_remove_loads:
  "pendingLoads (foldl (removeCarGroup cars) s ks) = pendingLoads s \<and>
   loadingCount (foldl (removeCarGroup cars) s ks) = loadingCount s"
  by (induction ks arbitrary: s) (simp_all add: removeCarGroup_def Let_def split: option.splits)

lemma getOrCreateMaterials_loads:
  "pendingLoads (snd (getOrCreateMaterials k s)) = pendingLoads s"
  "loadingCount (snd (getOrCreateMaterials k s)) = loadingCount s"
  by (simp_all add: getOrCreateMaterials_def split: option.splits)

lemma createCarGroup_loads:
  "extendsLoads (\<lambda>r. loadId r = car_id car) s (fst (createCarGroup c car s))"
proof (cases "truthy (car_modelUrl car)")
  case True
  then show ?thesis
    unfolding extendsLoads_def by (simp add: createCarGroup_def Let_def incrementLoading_def)
next
  case False
  have b: "pendingLoads (buildProceduralCar g car t) = pendingLoads t \<and>
           loadingCount (buildProceduralCar g car t) = loadingCount t" for g t
    by (simp add: buildProceduralCar_def getOrCreateMaterials_def split: option.splits)
  show ?thesis
  proof (cases "activeCar c")
    case None
    with False b show ?thesis
      by (intro extendsLoads_same) (simp_all add: createCarGroup_def Let_def)
  next
    case (Some a)
    with False b show ?thesis
      by (intro extendsLoads_same) (simp_all add: createCarGroup_def Let_def analyzeCarStructure_def)
  qed
qed

lemma syncCar_loads:
  "extendsLoads (\<lambda>r. loadId r = car_id car) s (fst (syncCar c s car))"
proof -
  obtain mats s1 where g: "getOrCreateMaterials (car_id car) s = (mats, s1)"
    by (cases "getOrCreateMaterials (car_id car) s")
  with getOrCreateMaterials_loads [of "car_id car" s]
  have fr: "pendingLoads s1 = pendingLoads s" "loadingCount s1 = loadingCount s" by simp_all
  define s2 where "s2 = s1\<lparr>materialsMap := AList.update (car_id car)
      (mats\<lparr>paint_color := car_color car, paint_metalness := car_metalness car,
            paint_roughness := car_roughness car\<rparr>) (materialsMap s1)\<rparr>"
  have fr2: "pendingLoads s2 = pendingLoads s" "loadingCount s2 = loadingCount s"
    by (simp_all add: s2_def fr)
  have a: "extendsLoads (\<lambda>r. loadId r = car_id car) s s2"
    by (intro extendsLoads_same) (simp_all add: fr2)
  have "fst (syncCar c s car) = s2 \<or> fst (syncCar c s car) = fst (createCarGroup c car s2)"
    using g by (simp add: syncCar_def Let_def s2_def)
  then show ?thesis
  proof
    assume "fst (syncCar c s car) = s2"
    with a show ?thesis by simp
  next
    assume "fst (syncCar c s car) = fst (createCarGroup c car s2)"
    with extendsLoads_trans [OF a createCarGroup_loads [of car s2 c]] show ?thesis by simp
  qed
qed

lemma syncCar_has_loads:
  assumes "map_of (carMap s) (car_id car) = Some g"
  shows "pendingLoads (fst (syncCar c s car)) = pendingLoads s \<and>
         loadingCount (fst (syncCar c s car)) = loadingCount s"
proof -
  obtain mats s1 where g: "getOrCreateMaterials (car_id car) s = (mats, s1)"
    by (cases "getOrCreateMaterials (car_id car) s")
  with getOrCreateMaterials_loads [of "car_id car" s] getOrCreateMaterials_frame [of "car_id car" s]
  have "pendingLoads s1 = pendingLoads s" "loadingCount s1 = loadingCount s" "carMap s1 = carMap s"
    by simp_all
  with g assms show ?thesis by (simp add: syncCar_def Let_def)
qed

lemma syncFleet_loads_result:
  "pendingLoads (fst (syncFleet c (fleet c) s)) =
     pendingLoads (foldl (\<lambda>s car. fst (syncCar c s car))
       (foldl (removeCarGroup (fleet c)) s (map fst (carMap s))) (fleet c)) \<and>
   loadingCount (fst (syncFleet c (fleet c) s)) =
     loadingCount (foldl (\<lambda>s car. fst (syncCar c s car))
       (foldl (removeCarGroup (fleet c)) s (map fst (carMap s))) (fleet c))"
proof (cases "fleet c = []")
  case True
  then have "activeCar c = None" by (simp add: activeCar_None_iff)
  with True show ?thesis by (simp add: syncFleet_def)
next
  case False
  then have a: "activeCar c \<noteq> None" by (simp add: activeCar_None_iff)
  show ?thesis using a
    by (auto simp: syncFleet_def forEach_syncCar [OF a] attachToActiveGroup_def
        analyzeCarStructure_def Let_def split: option.splits)
qed

lemma syncFleet_loads:
  "extendsLoads (\<lambda>r. loadId r \<in> car_id ` set (fleet c)) s (fst (syncFleet c (fleet c) s))"
proof -
  let ?Q = "\<lambda>r. loadId r \<in> car_id ` set (fleet c)"
  let ?s1 = "foldl (removeCarGroup (fleet c)) s (map fst (carMap s))"
  let ?s2 = "foldl (\<lambda>s car. fst (syncCar c s car)) ?s1 (fleet c)"
  have a: "extendsLoads ?Q s ?s1" by (intro extendsLoads_same) (simp_all add: fleet_remove_loads)
  have b: "extendsLoads ?Q ?s1 ?s2"
    by (intro extendsLoads_foldl [where P = "\<lambda>s. True"])
       (auto intro: extendsLoads_mono [OF syncCar_loads])
  have c: "extendsLoads ?Q ?s2 (fst (syncFleet c (fleet c) s))"
    by (intro extendsLoads_same) (simp_all add: syncFleet_loads_result)
  from extendsLoads_trans [OF extendsLoads_trans [OF a b] c] show ?thesis .
qed

lemma syncFleet_kept_loads:
  assumes w: "wfScene s" and m: "map_of (carMap s) i = Some h"
    and f: "find (\<lambda>c. car_id c = i) (fleet c) = Some car"
    and u: "obj_url (nodes s h) = car_modelUrl car"
  shows "extendsLoads (\<lambda>r. loadId r \<noteq> i) s (fst (syncFleet c (fleet c) s))"
proof -
  define s1 where "s1 = foldl (removeCarGroup (fleet c)) s (map fst (carMap s))"
  define s2 where "s2 = foldl (\<lambda>s car. fst (syncCar c s car)) s1 (fleet c)"
  have w1: "wfScene s1" unfolding s1_def
    by (intro wf_foldl [where P = wfScene] wf_removeCarGroup w)
  have k: "map_of (carMap s1) i = Some h"
    using fleet_remove_keep [OF m f u, of "map fst (carMap s)"] unfolding s1_def by simp
  have a: "extendsLoads (\<lambda>r. loadId r \<noteq> i) s s1" unfolding s1_def
    by (intro extendsLoads_same) (simp_all add: fleet_remove_loads)
  let ?P = "\<lambda>s. wfScene s \<and> map_of (carMap s) i = Some h"
  have step: "?P (fst (syncCar c t x)) \<and> extendsLoads (\<lambda>r. loadId r \<noteq> i) t (fst (syncCar c t x))"
    if p: "?P t" and x: "x \<in> set (fleet c)" for t x
  proof -
    from p have pw: "wfScene t" and pm: "map_of (carMap t) i = Some h" by simp_all
    note kp = syncCar_keep [OF pw pm, of c x]
    have p': "?P (fst (syncCar c t x))" using kp wf_syncCar [OF pw, of c x] by simp
    have l: "extendsLoads (\<lambda>r. loadId r \<noteq> i) t (fst (syncCar c t x))"
    proof (cases "car_id x = i")
      case True
      with pm have "pendingLoads (fst (syncCar c t x)) = pendingLoads t \<and>
          loadingCount (fst (syncCar c t x)) = loadingCount t"
        by (intro syncCar_has_loads) simp_all
      then show ?thesis by (intro extendsLoads_same) simp_all
    next
      case False
      then show ?thesis by (intro extendsLoads_mono [OF syncCar_loads]) simp
    qed
    from p' l show ?thesis by (rule conjI)
  qed
  have p1: "?P s1" using w1 k by simp
  have b: "extendsLoads (\<lambda>r. loadId r \<noteq> i) s1 s2" unfolding s2_def
    by (rule extendsLoads_foldl [where P = ?P, OF step p1])
  have c: "extendsLoads (\<lambda>r. loadId r \<noteq> i) s2 (fst (syncFleet c (fleet c) s))"
    unfolding s2_def s1_def by (intro extendsLoads_same) (simp_all add: syncFleet_loads_result)
  from extendsLoads_trans [OF extendsLoads_trans [OF a b] c] show ?thesis .
qed

lemma no_loads_started:
  assumes "loadId ` set xs \<subseteq> {i}" and "i \<notin> loadId ` set xs"
  shows "xs = []"
proof (cases xs)
  case Nil
  then show ?thesis .
next
  case (Cons r rs)
  then have "loadId r \<in> loadId ` set xs" by simp
  with assms show ?thesis by (metis singletonD subsetD)
qed

text \<open>
  C1 (as amended): let \<open>s\<close> be the state after any sequence of configuration updates and
  load completions. After a pass of \<open>syncSceneObjects\<close> the ids of \<open>sceneObjectMap\<close> are
  exactly the configured ids, and after a pass of \<open>syncFleet\<close> the ids of \<open>carMap\<close> are
  exactly the ids of the fleet. After a pass of \<open>syncEnvironments\<close> the ids of
  \<open>envObjectMap\<close> are the configured ids that were live before or whose url is not empty
  (an environment with an empty url gets no anchor); they are exactly the configured ids
  when no configured url is empty. A pass drops no pending load; the loads it starts are
  for configured ids, and each is counted once in \<open>loadingCount\<close>. A pass records the
  configured url on the group of a scene object or car, and a pass that finds the same
  url recorded keeps that very group and starts no load for its id:
  it is still the group of its id and a child of its parent, and only the transforms of
  the configured entries were applied to it (a car's group is not touched at all). An
  environment's anchor that is live and still configured is always kept in this way.
\<close>

theorem live_ids_after_sync:
  fixes events :: "scene_event list"
  defines "s \<equiv> sceneAfter events"
  shows "liveIds (sceneObjectMap (syncSceneObjects objs s)) = so_id ` set objs \<and>
    liveIds (carMap (fst (syncFleet c (fleet c) s))) = car_id ` set (fleet c) \<and>
    liveIds (envObjectMap (syncEnvironments envs s)) =
      (liveIds (envObjectMap s) \<inter> env_id ` set envs) \<union> env_id ` {e \<in> set envs. env_url e \<noteq> []} \<and>
    ((\<forall>e \<in> set envs. env_url e \<noteq> []) \<longrightarrow>
       liveIds (envObjectMap (syncEnvironments envs s)) = env_id ` set envs) \<and>
    (i \<in> so_id ` set objs \<and> (\<forall>e \<in> set objs. so_id e = i \<longrightarrow> so_url e = u) \<longrightarrow>
       (\<exists>h. map_of (sceneObjectMap (syncSceneObjects objs s)) i = Some h \<and>
            obj_url (nodes (syncSceneObjects objs s) h) = Some u) \<and>
       (map_of (sceneObjectMap s) i = Some g \<and> obj_url (nodes s g) = Some u \<longrightarrow>
          map_of (sceneObjectMap (syncSceneObjects objs s)) i = Some g \<and>
          g \<in> set (sceneObjectsGroup (syncSceneObjects objs s)) \<and>
          nodes (syncSceneObjects objs s) g = soTransforms i objs (nodes s g) \<and>
          i \<notin> loadId ` set (startedLoads s (syncSceneObjects objs s)))) \<and>
    (i \<in> env_id ` set envs \<and> map_of (envObjectMap s) i = Some g \<longrightarrow>
       map_of (envObjectMap (syncEnvironments envs s)) i = Some g \<and>
       g \<in> set (wallModelGroup (syncEnvironments envs s)) \<and>
       nodes (syncEnvironments envs s) g = envTransforms i envs (nodes s g) \<and>
       i \<notin> loadId ` set (startedLoads s (syncEnvironments envs s))) \<and>
    (find (\<lambda>x. car_id x = i) (fleet c) = Some car \<longrightarrow>
       (\<exists>h. map_of (carMap (fst (syncFleet c (fleet c) s))) i = Some h \<and>
            obj_url (nodes (fst (syncFleet c (fleet c) s)) h) = car_modelUrl car) \<and>
       (map_of (carMap s) i = Some g \<and> obj_url (nodes s g) = car_modelUrl car \<longrightarrow>
          map_of (carMap (fst (syncFleet c (fleet c) s))) i = Some g \<and>
          g \<in> set (fleetGroup (fst (syncFleet c (fleet c) s))) \<and>
          nodes (fst (syncFleet c (fleet c) s)) g = nodes s g \<and>
          i \<notin> loadId ` set (startedLoads s (fst (syncFleet c (fleet c) s))))) \<and>
    (pendingLoads (syncSceneObjects objs s) =
       pendingLoads s @ startedLoads s (syncSceneObjects objs s) \<and>
     loadingCount (syncSceneObjects objs s) =
       loadingCount s + int (length (startedLoads s (syncSceneObjects objs s))) \<and>
     loadId ` set (startedLoads s (syncSceneObjects objs s)) \<subseteq> so_id ` set objs) \<and>
    (pendingLoads (syncEnvironments envs s) =
       pendingLoads s @ startedLoads s (syncEnvironments envs s) \<and>
     loadingCount (syncEnvironments envs s) =
       loadingCount s + int (length (startedLoads s (syncEnvironments envs s))) \<and>
     loadId ` set (startedLoads s (syncEnvironments envs s)) \<subseteq> env_id ` set envs) \<and>
    (pendingLoads (fst (syncFleet c (fleet c) s)) =
       pendingLoads s @ startedLoads s (fst (syncFleet c (fleet c) s)) \<and>
     loadingCount (fst (syncFleet c (fleet c) s)) =
       loadingCount s + int (length (startedLoads s (fst (syncFleet c (fleet c) s)))) \<and>
     loadId ` set (startedLoads s (fst (syncFleet c (fleet c) s))) \<subseteq> car_id ` set (fleet c))"
proof -
  have w: "wfScene s" unfolding s_def by (rule wf_sceneAfter)
  have c1: "liveIds (sceneObjectMap (syncSceneObjects objs s)) = so_id ` set objs"
    by (rule syncSceneObjects_keys)
  have c2: "liveIds (carMap (fst (syncFleet c (fleet c) s))) = car_id ` set (fleet c)"
    by (rule syncFleet_keys)
  have c3: "liveIds (envObjectMap (syncEnvironments envs s)) =
      (liveIds (envObjectMap s) \<inter> env_id ` set envs) \<union> env_id ` {e \<in> set envs. env_url e \<noteq> []}"
    by (rule syncEnvironments_keys)
  have c4: "(\<forall>e \<in> set envs. env_url e \<noteq> []) \<longrightarrow>
       liveIds (envObjectMap (syncEnvironments envs s)) = env_id ` set envs"
    unfolding c3 by auto
  have c5: "i \<in> so_id ` set objs \<and> (\<forall>e \<in> set objs. so_id e = i \<longrightarrow> so_url e = u) \<longrightarrow>
       (\<exists>h. map_of (sceneObjectMap (syncSceneObjects objs s)) i = Some h \<and>
            obj_url (nodes (syncSceneObjects objs s) h) = Some u) \<and>
       (map_of (sceneObjectMap s) i = Some g \<and> obj_url (nodes s g) = Some u \<longrightarrow>
          map_of (sceneObjectMap (syncSceneObjects objs s)) i = Some g \<and>
          g \<in> set (sceneObjectsGroup (syncSceneObjects objs s)) \<and>
          nodes (syncSceneObjects objs s) g = soTransforms i objs (nodes s g) \<and>
          i \<notin> loadId ` set (startedLoads s (syncSceneObjects objs s)))"
  proof (intro impI, elim conjE)
    assume i: "i \<in> so_id ` set objs" and e: "\<forall>e \<in> set objs. so_id e = i \<longrightarrow> so_url e = u"
    have r: "\<exists>h. map_of (sceneObjectMap (syncSceneObjects objs s)) i = Some h \<and>
            obj_url (nodes (syncSceneObjects objs s) h) = Some u"
      by (rule syncSceneObjects_record [OF w e i])
    have k: "map_of (sceneObjectMap s) i = Some g \<and> obj_url (nodes s g) = Some u \<longrightarrow>
          map_of (sceneObjectMap (syncSceneObjects objs s)) i = Some g \<and>
          g \<in> set (sceneObjectsGroup (syncSceneObjects objs s)) \<and>
          nodes (syncSceneObjects objs s) g = soTransforms i objs (nodes s g) \<and>
          i \<notin> loadId ` set (startedLoads s (syncSceneObjects objs s))"
    proof (intro impI, elim conjE)
      assume m: "map_of (sceneObjectMap s) i = Some g" and u: "obj_url (nodes s g) = Some u"
      note k = syncSceneObjects_keep [OF w m u e i]
      from k have m': "map_of (sceneObjectMap (syncSceneObjects objs s)) i = Some g" by simp
      have p: "g \<in> set (sceneObjectsGroup (syncSceneObjects objs s))"
        by (rule wf_handle(2) [OF wf_syncSceneObjects [OF w] m'])
      have l: "i \<notin> loadId ` set (startedLoads s (syncSceneObjects objs s))"
        using extendsLoads_started [OF syncSceneObjects_kept_loads [OF w m u e i]] by blast
      from k p l show "map_of (sceneObjectMap (syncSceneObjects objs s)) i = Some g \<and>
          g \<in> set (sceneObjectsGroup (syncSceneObjects objs s)) \<and>
          nodes (syncSceneObjects objs s) g = soTransforms i objs (nodes s g) \<and>
          i \<notin> loadId ` set (startedLoads s (syncSceneObjects objs s))" by simp
    qed
    from r k show "(\<exists>h. map_of (sceneObjectMap (syncSceneObjects objs s)) i = Some h \<and>
            obj_url (nodes (syncSceneObjects objs s) h) = Some u) \<and>
       (map_of (sceneObjectMap s) i = Some g \<and> obj_url (nodes s g) = Some u \<longrightarrow>
          map_of (sceneObjectMap (syncSceneObjects objs s)) i = Some g \<and>
          g \<in> set (sceneObjectsGroup (syncSceneObjects objs s)) \<and>
          nodes (syncSceneObjects objs s) g = soTransforms i objs (nodes s g) \<and>
          i \<notin> loadId ` set (startedLoads s (syncSceneObjects objs s)))" by (rule conjI)
  qed
  have c6: "i \<in> env_id ` set envs \<and> map_of (envObjectMap s) i = Some g \<longrightarrow>
       map_of (envObjectMap (syncEnvironments envs s)) i = Some g \<and>
       g \<in> set (wallModelGroup (syncEnvironments envs s)) \<and>
       nodes (syncEnvironments envs s) g = envTransforms i envs (nodes s g) \<and>
       i \<notin> loadId ` set (startedLoads s (syncEnvironments envs s))"
  proof (intro impI, elim conjE)
    assume i: "i \<in> env_id ` set envs" and m: "map_of (envObjectMap s) i = Some g"
    note k = syncEnvironments_keep [OF w m i]
    from k have m': "map_of (envObjectMap (syncEnvironments envs s)) i = Some g" by simp
    have p: "g \<in> set (wallModelGroup (syncEnvironments envs s))"
      by (rule wf_env_handle(2) [OF wf_syncEnvironments [OF w] m'])
    have l: "i \<notin> loadId ` set (startedLoads s (syncEnvironments envs s))"
      using extendsLoads_started [OF syncEnvironments_kept_loads [OF w m i]] by blast
    from k p l show "map_of (envObjectMap (syncEnvironments envs s)) i = Some g \<and>
       g \<in> set (wallModelGroup (syncEnvironments envs s)) \<and>
       nodes (syncEnvironments envs s) g = envTransforms i envs (nodes s g) \<and>
       i \<notin> loadId ` set (startedLoads s (syncEnvironments envs s))" by simp
  qed
  have c7: "find (\<lambda>x. car_id x = i) (fleet c) = Some car \<longrightarrow>
       (\<exists>h. map_of (carMap (fst (syncFleet c (fleet c) s))) i = Some h \<and>
            obj_url (nodes (fst (syncFleet c (fleet c) s)) h) = car_modelUrl car) \<and>
       (map_of (carMap s) i = Some g \<and> obj_url (nodes s g) = car_modelUrl car \<longrightarrow>
          map_of (carMap (fst (syncFleet c (fleet c) s))) i = Some g \<and>
          g \<in> set (fleetGroup (fst (syncFleet c (fleet c) s))) \<and>
          nodes (fst (syncFleet c (fleet c) s)) g = nodes s g \<and>
          i \<notin> loadId ` set (startedLoads s (fst (syncFleet c (fleet c) s))))"
  proof (intro impI)
    assume f: "find (\<lambda>x. car_id x = i) (fleet c) = Some car"
    have r: "\<exists>h. map_of (carMap (fst (syncFleet c (fleet c) s))) i = Some h \<and>
            obj_url (nodes (fst (syncFleet c (fleet c) s)) h) = car_modelUrl car"
      by (rule syncFleet_record [OF w f])
    have k: "map_of (carMap s) i = Some g \<and> obj_url (nodes s g) = car_modelUrl car \<longrightarrow>
          map_of (carMap (fst (syncFleet c (fleet c) s))) i = Some g \<and>
          g \<in> set (fleetGroup (fst (syncFleet c (fleet c) s))) \<and>
          nodes (fst (syncFleet c (fleet c) s)) g = nodes s g \<and>
          i \<notin> loadId ` set (startedLoads s (fst (syncFleet c (fleet c) s)))"
    proof (intro impI, elim conjE)
      assume m: "map_of (carMap s) i = Some g" and u: "obj_url (nodes s g) = car_modelUrl car"
      note k = syncFleet_keep [OF w m f u]
      from k have m': "map_of (carMap (fst (syncFleet c (fleet c) s))) i = Some g" by simp
      have p: "g \<in> set (fleetGroup (fst (syncFleet c (fleet c) s)))"
        by (rule wf_car_handle(2) [OF wf_syncFleet [OF w] m'])
      have l: "i \<notin> loadId ` set (startedLoads s (fst (syncFleet c (fleet c) s)))"
        using extendsLoads_started [OF syncFleet_kept_loads [OF w m f u]] by blast
      from k p l show "map_of (carMap (fst (syncFleet c (fleet c) s))) i = Some g \<and>
          g \<in> set (fleetGroup (fst (syncFleet c (fleet c) s))) \<and>
          nodes (fst (syncFleet c (fleet c) s)) g = nodes s g \<and>
          i \<notin> loadId ` set (startedLoads s (fst (syncFleet c (fleet c) s)))" by simp
    qed
    from r k show "(\<exists>h. map_of (carMap (fst (syncFleet c (fleet c) s))) i = Some h \<and>
            obj_url (nodes (fst (syncFleet c (fleet c) s)) h) = car_modelUrl car) \<and>
       (map_of (carMap s) i = Some g \<and> obj_url (nodes s g) = car_modelUrl car \<longrightarrow>
          map_of (carMap (fst (syncFleet c (fleet c) s))) i = Some g \<and>
          g \<in> set (fleetGroup (fst (syncFleet c (fleet c) s))) \<and>
          nodes (fst (syncFleet c (fleet c) s)) g = nodes s g \<and>
          i \<notin> loadId ` set (startedLoads s (fst (syncFleet c (fleet c) s))))" by (rule conjI)
  qed
  have c8: "pendingLoads (syncSceneObjects objs s) =
       pendingLoads s @ startedLoads s (syncSceneObjects objs s) \<and>
     loadingCount (syncSceneObjects objs s) =
       loadingCount s + int (length (startedLoads s (syncSceneObjects objs s))) \<and>
     loadId ` set (startedLoads s (syncSceneObjects objs s)) \<subseteq> so_id ` set objs"
    using extendsLoads_started [OF syncSceneObjects_loads [of objs s]] by blast
  have c9: "pendingLoads (syncEnvironments envs s) =
       pendingLoads s @ startedLoads s (syncEnvironments envs s) \<and>
     loadingCount (syncEnvironments envs s) =
       loadingCount s + int (length (startedLoads s (syncEnvironments envs s))) \<and>
     loadId ` set (startedLoads s (syncEnvironments envs s)) \<subseteq> env_id ` set envs"
    using extendsLoads_started [OF syncEnvironments_loads [of envs s]] by blast
  have c10: "pendingLoads (fst (syncFleet c (fleet c) s)) =
       pendingLoads s @ startedLoads s (fst (syncFleet c (fleet c) s)) \<and>
     loadingCount (fst (syncFleet c (fleet c) s)) =
       loadingCount s + int (length (startedLoads s (fst (syncFleet c (fleet c) s)))) \<and>
     loadId ` set (startedLoads s (fst (syncFleet c (fleet c) s))) \<subseteq> car_id ` set (fleet c)"
    using extendsLoads_started [OF syncFleet_loads [of c s]] by blast
  show ?thesis
    by (rule conjI [OF c1 conjI [OF c2 conjI [OF c3 conjI [OF c4 conjI [OF c5 conjI [OF c6
          conjI [OF c7 conjI [OF c8 conjI [OF c9 c10]]]]]]]]])
qed

theorem live_ids_after_sync_witness:
  "map_of (sceneObjectMap (sceneAfter [SceneObjectsChanged [demoObject ''chair.glb'']])) ''o1'' = Some 0 \<and>
   obj_url (nodes (sceneAfter [SceneObjectsChanged [demoObject ''chair.glb'']]) 0) = Some ''chair.glb'' \<and>
   pendingLoads (sceneAfter [SceneObjectsChanged [demoObject ''chair.glb'']]) =
     [SceneObjectLoad (demoObject ''chair.glb'') 0] \<and>
   loadingCount (sceneAfter [SceneObjectsChanged [demoObject ''chair.glb'']]) = 1 \<and>
   liveIds (sceneObjectMap
     (syncSceneObjects [(demoObject ''chair.glb'')\<lparr>so_position := (1, 2, 3)\<rparr>]
        (sceneAfter [SceneObjectsChanged [demoObject ''chair.glb'']]))) = {''o1''} \<and>
   map_of (sceneObjectMap
     (syncSceneObjects [(demoObject ''chair.glb'')\<lparr>so_position := (1, 2, 3)\<rparr>]
        (sceneAfter [SceneObjectsChanged [demoObject ''chair.glb'']]))) ''o1'' = Some 0 \<and>
   obj_position (nodes
     (syncSceneObjects [(demoObject ''chair.glb'')\<lparr>so_position := (1, 2, 3)\<rparr>]
        (sceneAfter [SceneObjectsChanged [demoObject ''chair.glb'']])) 0) = (1, 2, 3) \<and>
   startedLoads (sceneAfter [SceneObjectsChanged [demoObject ''chair.glb'']])
     (syncSceneObjects [(demoObject ''chair.glb'')\<lparr>so_position := (1, 2, 3)\<rparr>]
        (sceneAfter [SceneObjectsChanged [demoObject ''chair.glb'']])) = [] \<and>
   pendingLoads
     (syncSceneObjects [(demoObject ''chair.glb'')\<lparr>so_position := (1, 2, 3)\<rparr>]
        (sceneAfter [SceneObjectsChanged [demoObject ''chair.glb'']])) =
     [SceneObjectLoad (demoObject ''chair.glb'') 0] \<and>
   loadingCount
     (syncSceneObjects [(demoObject ''chair.glb'')\<lparr>so_position := (1, 2, 3)\<rparr>]
        (sceneAfter [SceneObjectsChanged [demoObject ''chair.glb'']])) = 1"
proof -
  let ?s = "sceneAfter [SceneObjectsChanged [demoObject ''chair.glb'']]"
  let ?objs = "[(demoObject ''chair.glb'')\<lparr>so_position := (1, 2, 3)\<rparr>]"
  let ?s' = "syncSceneObjects ?objs ?s"
  note T = live_ids_after_sync [where events = "[SceneObjectsChanged [demoObject ''chair.glb'']]"
      and objs = ?objs and i = "''o1''" and u = "''chair.glb''" and g = 0]
  have m: "map_of (sceneObjectMap ?s) ''o1'' = Some 0"
    and u: "obj_url (nodes ?s 0) = Some ''chair.glb''"
    by (simp_all add: sceneAfter_def initialScene_def syncSceneObjects_def removeSceneObjectGroup_def
      syncSceneObject_def loadSceneObject_def applySceneObjectTransform_def demoObject_def
      newGroup_def incrementLoading_def Let_def)
  have pl: "pendingLoads ?s = [SceneObjectLoad (demoObject ''chair.glb'') 0]"
    by (simp add: sceneAfter_def initialScene_def syncSceneObjects_def removeSceneObjectGroup_def
      syncSceneObject_def loadSceneObject_def Let_def)
  have lc: "loadingCount ?s = 1"
    by (simp add: sceneAfter_def initialScene_def syncSceneObjects_def removeSceneObjectGroup_def
      syncSceneObject_def loadSceneObject_def incrementLoading_def Let_def)
  have i: "''o1'' \<in> so_id ` set ?objs"
    and e: "\<forall>e \<in> set ?objs. so_id e = ''o1'' \<longrightarrow> so_url e = ''chair.glb''"
    by (simp_all add: demoObject_def)
  from T have ids: "liveIds (sceneObjectMap ?s') = so_id ` set ?objs"
    by (rule conjunct1)
  have imp: "''o1'' \<in> so_id ` set ?objs \<and>
      (\<forall>e \<in> set ?objs. so_id e = ''o1'' \<longrightarrow> so_url e = ''chair.glb'') \<longrightarrow>
       (\<exists>h. map_of (sceneObjectMap ?s') ''o1'' = Some h \<and>
            obj_url (nodes ?s' h) = Some ''chair.glb'') \<and>
       (map_of (sceneObjectMap ?s) ''o1'' = Some 0 \<and> obj_url (nodes ?s 0) = Some ''chair.glb'' \<longrightarrow>
          map_of (sceneObjectMap ?s') ''o1'' = Some 0 \<and>
          0 \<in> set (sceneObjectsGroup ?s') \<and>
          nodes ?s' 0 = soTransforms ''o1'' ?objs (nodes ?s 0) \<and>
          ''o1'' \<notin> loadId ` set (startedLoads ?s ?s'))"
    by (rule T [THEN conjunct2, THEN conjunct2, THEN conjunct2, THEN conjunct2, THEN conjunct1])
  have ie: "''o1'' \<in> so_id ` set ?objs \<and>
      (\<forall>e \<in> set ?objs. so_id e = ''o1'' \<longrightarrow> so_url e = ''chair.glb'')"
    using i e by (rule conjI)
  have mu: "map_of (sceneObjectMap ?s) ''o1'' = Some 0 \<and> obj_url (nodes ?s 0) = Some ''chair.glb''"
    using m u by (rule conjI)
  note kept = mp [OF mp [OF imp ie, THEN conjunct2] mu]
  note k = kept [THEN conjunct1] kept [THEN conjunct2, THEN conjunct2, THEN conjunct1]
    kept [THEN conjunct2, THEN conjunct2, THEN conjunct2]
  have g: "pendingLoads ?s' = pendingLoads ?s @ startedLoads ?s ?s' \<and>
     loadingCount ?s' = loadingCount ?s + int (length (startedLoads ?s ?s')) \<and>
     loadId ` set (startedLoads ?s ?s') \<subseteq> so_id ` set ?objs"
    by (rule T [THEN conjunct2, THEN conjunct2, THEN conjunct2, THEN conjunct2, THEN conjunct2,
          THEN conjunct2, THEN conjunct2, THEN conjunct1])
  have o: "so_id ` set ?objs = {''o1''}" by (simp add: demoObject_def)
  have sub: "loadId ` set (startedLoads ?s ?s') \<subseteq> {''o1''}"
    using g [THEN conjunct2, THEN conjunct2] unfolding o .
  have st: "startedLoads ?s ?s' = []" by (rule no_loads_started [OF sub k(3)])
  have pl': "pendingLoads ?s' = [SceneObjectLoad (demoObject ''chair.glb'') 0]"
    using g [THEN conjunct1] unfolding st pl by simp
  have lc': "loadingCount ?s' = 1"
    using g [THEN conjunct2, THEN conjunct1] unfolding st lc by simp
  have "obj_position (soTransforms ''o1'' ?objs (nodes ?s 0)) = (1, 2, 3)"
    by (simp add: soTransforms_def applySceneObjectTransform_def demoObject_def)
  with k have pos: "obj_position (nodes ?s' 0) = (1, 2, 3)" by simp
  from ids have ids': "liveIds (sceneObjectMap ?s') = {''o1''}" unfolding o .
  from m u pl lc ids' k(1) pos st pl' lc' show ?thesis by (intro conjI)
qed

text \<open>
  The claim as first stated fails for an environment whose url is the empty string: the
  pass creates no anchor for it, so its id is configured but not live.
\<close>

theorem live_ids_counterexample:
  "liveIds (envObjectMap (syncEnvironments [demoEnvironment []] (sceneAfter []))) = {} \<and>
   env_id ` set [demoEnvironment []] = {''e1''} \<and>
   liveIds (envObjectMap (syncEnvironments [demoEnvironment []] (sceneAfter [])))
     \<noteq> env_id ` set [demoEnvironment []]"
  by (simp add: sceneAfter_def initialScene_def syncEnvironments_def removeEnvironmentObject_def
      syncEnvironment_def loadEnvironmentModel_def applyEnvironmentTransform_def
      demoEnvironment_def newGroup_def incrementLoading_def Let_def)

text \<open>
  C2 (the code departs from the claim for environments): an environment keeps its id and
  its url changes from \<open>a.glb\<close> to \<open>b.glb\<close>. The anchor stays the same object, no
  anchor is created and no load is started, and when the load of \<open>a.glb\<close> completes that
  model is attached: the scene shows \<open>a.glb\<close> for an environment configured as \<open>b.glb\<close>.
  The same change on a scene object replaces the group and starts the load of \<open>b.glb\<close>.
\<close>

theorem environment_url_change_not_reloaded:
  "map_of (envObjectMap (sceneAfter [EnvironmentsChanged [demoEnvironment ''a.glb''],
     EnvironmentsChanged [demoEnvironment ''b.glb'']])) ''e1'' = Some 0 \<and>
   wallModelGroup (sceneAfter [EnvironmentsChanged [demoEnvironment ''a.glb''],
     EnvironmentsChanged [demoEnvironment ''b.glb'']]) = [0] \<and>
   pendingLoads (sceneAfter [EnvironmentsChanged [demoEnvironment ''a.glb''],
     EnvironmentsChanged [demoEnvironment ''b.glb'']]) = [EnvLoad (demoEnvironment ''a.glb'') 0] \<and>
   nextHandle (sceneAfter [EnvironmentsChanged [demoEnvironment ''a.glb''],
     EnvironmentsChanged [demoEnvironment ''b.glb'']]) = 1 \<and>
   obj_children (nodes (sceneAfter [EnvironmentsChanged [demoEnvironment ''a.glb''],
     EnvironmentsChanged [demoEnvironment ''b.glb''],
     LoadSucceeded demoConfig (EnvLoad (demoEnvironment ''a.glb'') 0)]) 0) = [GltfScene ''a.glb''] \<and>
   map_of (sceneObjectMap (sceneAfter [SceneObjectsChanged [demoObject ''a.glb''],
     SceneObjectsChanged [demoObject ''b.glb'']])) ''o1'' = Some 1 \<and>
   sceneObjectsGroup (sceneAfter [SceneObjectsChanged [demoObject ''a.glb''],
     SceneObjectsChanged [demoObject ''b.glb'']]) = [1] \<and>
   pendingLoads (sceneAfter [SceneObjectsChanged [demoObject ''a.glb''],
     SceneObjectsChanged [demoObject ''b.glb'']]) =
     [SceneObjectLoad (demoObject ''a.glb'') 0, SceneObjectLoad (demoObject ''b.glb'') 1]"
  by (simp add: sceneAfter_def initialScene_def syncEnvironments_def removeEnvironmentObject_def
      syncEnvironment_def loadEnvironmentModel_def applyEnvironmentTransform_def
      demoEnvironment_def newGroup_def incrementLoading_def Let_def
      syncSceneObjects_def removeSceneObjectGroup_def syncSceneObject_def loadSceneObject_def
      applySceneObjectTransform_def demoObject_def
      loadCompleted_def environmentLoaded_def sceneObjectLoaded_def attachModel_def
      storeDecrementLoading_def decrementLoading_def)

text \<open>
  C6 (the code departs from the claim for vehicles): the active car's model url changes
  from \<open>a.glb\<close> to \<open>b.glb\<close> while \<open>a.glb\<close> is still loading, so group 0 is removed and
  group 1 becomes the car's group. When the load of \<open>a.glb\<close> completes afterwards, its
  callback attaches the model to the removed group 0 and analyses that group: the part
  classification, which described group 1, now describes group 0. When instead the car
  is removed from the fleet, the callback still attaches the model to the removed group
  and creates a material set for the removed id. The environment and scene-object
  callbacks check the live map first and attach nothing after a removal.
\<close>

theorem stale_car_load:
  "map_of (carMap (sceneAfter
      [FleetChanged (demoModelConfig ''a.glb''), FleetChanged (demoModelConfig ''b.glb'')]))
     ''lfa-next'' = Some 1 \<and>
   fleetGroup (sceneAfter
      [FleetChanged (demoModelConfig ''a.glb''), FleetChanged (demoModelConfig ''b.glb'')]) = [1] \<and>
   pendingLoads (sceneAfter
      [FleetChanged (demoModelConfig ''a.glb''), FleetChanged (demoModelConfig ''b.glb'')]) =
     [CarLoad (demoModelCar ''a.glb'') 0, CarLoad (demoModelCar ''b.glb'') 1] \<and>
   analyzedGroup (sceneAfter
      [FleetChanged (demoModelConfig ''a.glb''), FleetChanged (demoModelConfig ''b.glb''),
       LoadSucceeded (demoModelConfig ''b.glb'') (CarLoad (demoModelCar ''b.glb'') 1)]) = Some 1 \<and>
   analyzedGroup (sceneAfter
      [FleetChanged (demoModelConfig ''a.glb''), FleetChanged (demoModelConfig ''b.glb''),
       LoadSucceeded (demoModelConfig ''b.glb'') (CarLoad (demoModelCar ''b.glb'') 1),
       LoadSucceeded (demoModelConfig ''b.glb'') (CarLoad (demoModelCar ''a.glb'') 0)]) = Some 0 \<and>
   obj_children (nodes (sceneAfter
      [FleetChanged (demoModelConfig ''a.glb''), FleetChanged (demoModelConfig ''b.glb''),
       LoadSucceeded (demoModelConfig ''b.glb'') (CarLoad (demoModelCar ''b.glb'') 1),
       LoadSucceeded (demoModelConfig ''b.glb'') (CarLoad (demoModelCar ''a.glb'') 0)]) 0)
     = [GltfScene ''a.glb''] \<and>
   map_of (carMap (sceneAfter [FleetChanged (demoModelConfig ''a.glb''), FleetChanged otherCarConfig]))
     ''lfa-next'' = None \<and>
   map_of (materialsMap (sceneAfter [FleetChanged (demoModelConfig ''a.glb''), FleetChanged otherCarConfig]))
     ''lfa-next'' = None \<and>
   map_of (materialsMap (sceneAfter [FleetChanged (demoModelConfig ''a.glb''), FleetChanged otherCarConfig,
       LoadSucceeded otherCarConfig (CarLoad (demoModelCar ''a.glb'') 0)]))
     ''lfa-next'' = Some basePaint \<and>
   obj_children (nodes (sceneAfter [FleetChanged (demoModelConfig ''a.glb''), FleetChanged otherCarConfig,
       LoadSucceeded otherCarConfig (CarLoad (demoModelCar ''a.glb'') 0)]) 0) = [GltfScene ''a.glb''] \<and>
   obj_children (nodes (sceneAfter [EnvironmentsChanged [demoEnvironment ''a.glb''], EnvironmentsChanged [],
       LoadSucceeded demoConfig (EnvLoad (demoEnvironment ''a.glb'') 0)]) 0) = [] \<and>
   obj_children (nodes (sceneAfter [SceneObjectsChanged [demoObject ''a.glb''], SceneObjectsChanged [],
       LoadSucceeded demoConfig (SceneObjectLoad (demoObject ''a.glb'') 0)]) 0) = []"
  by (simp add: sceneAfter_def initialScene_def newGroup_def incrementLoading_def Let_def
      syncFleet_def removeCarGroup_def syncCar_def createCarGroup_def buildProceduralCar_def
      getOrCreateMaterials_def basePaint_def truthy_def analyzeCarStructure_def
      attachToActiveGroup_def activeCar_def jsIndex_def demoCar_def demoConfig_def
      demoModelCar_def demoModelConfig_def otherCarConfig_def carLoaded_def
      syncEnvironments_def removeEnvironmentObject_def syncEnvironment_def
      loadEnvironmentModel_def applyEnvironmentTransform_def demoEnvironment_def
      syncSceneObjects_def removeSceneObjectGroup_def syncSceneObject_def loadSceneObject_def
      applySceneObjectTransform_def demoObject_def
      loadCompleted_def environmentLoaded_def sceneObjectLoaded_def attachModel_def
      storeDecrementLoading_def decrementLoading_def)

end
